theory Spec2Isabelle
  imports Main
begin

section \<open>Messaging between web content and extension\<close>

text \<open>
  The module embedded here is the TypeScript messaging bridge (\<^verbatim>\<open>ExtConnection\<close>,
  \<^verbatim>\<open>handleMessage\<close>, \<^verbatim>\<open>connect\<close>). Its module-level variables, the promises it
  creates and the host objects it calls are collected in one record that every operation
  takes and returns. Host calls (\<^verbatim>\<open>addEventListener\<close>, \<^verbatim>\<open>appendChild\<close>,
  \<^verbatim>\<open>postMessage\<close>) are recorded in that record and assumed to succeed; the doc comment
  of \<^verbatim>\<open>connect\<close> requires \<^verbatim>\<open>document.body\<close> to exist.
\<close>

subsection \<open>JavaScript values\<close>

text \<open>
  The payload of a message event has type \<^verbatim>\<open>unknown\<close>. The values modelled are
  \<^verbatim>\<open>undefined\<close>, \<^verbatim>\<open>null\<close>, booleans, numbers that are integers of magnitude below
  \<open>10^21\<close> (whose rendering is the plain decimal numeral), strings, and plain objects as
  lists of own properties (the first binding of a name is the property).
\<close>

datatype jsval =
    JUndefined
  | JNull
  | JBool bool
  | JNum int
  | JStr string
  | JObj "(string \<times> jsval) list"

datatype js_error = TypeError

text \<open>
  The names every plain object inherits from \<^verbatim>\<open>Object.prototype\<close>. The operator
  \<^verbatim>\<open>in\<close> sees them, and so does a property read.
\<close>

definition objectPrototypeKeys :: "string list" where
  "objectPrototypeKeys =
     [''constructor'', ''__defineGetter__'', ''__defineSetter__'', ''hasOwnProperty'',
      ''__lookupGetter__'', ''__lookupSetter__'', ''isPrototypeOf'',
      ''propertyIsEnumerable'', ''toString'', ''valueOf'', ''__proto__'',
      ''toLocaleString'']"

text \<open>
  \<^verbatim>\<open>v.name\<close> for one of the names the handler reads (\<^verbatim>\<open>type\<close>, \<^verbatim>\<open>id\<close>,
  \<^verbatim>\<open>body\<close>, \<^verbatim>\<open>err\<close>; none of them is inherited, see \<open>read_names_not_inherited\<close>):
  a TypeError on \<^verbatim>\<open>undefined\<close> and \<^verbatim>\<open>null\<close>, \<^verbatim>\<open>undefined\<close> on the other
  primitives and on an object without the property.
\<close>

fun js_member :: "jsval \<Rightarrow> string \<Rightarrow> js_error + jsval" where
  "js_member JUndefined name = Inl TypeError"
| "js_member JNull name = Inl TypeError"
| "js_member (JObj props) name =
     (case map_of props name of None \<Rightarrow> Inr JUndefined | Some v \<Rightarrow> Inr v)"
| "js_member v name = Inr JUndefined"

text \<open>\<^verbatim>\<open>name in v\<close>: a TypeError unless \<open>v\<close> is an object.\<close>

fun js_in_val :: "string \<Rightarrow> jsval \<Rightarrow> js_error + bool" where
  "js_in_val name (JObj props) =
     Inr (map_of props name \<noteq> None \<or> name \<in> set objectPrototypeKeys)"
| "js_in_val name v = Inl TypeError"

subsection \<open>Rendering a value inside a template literal\<close>

definition digit :: "nat \<Rightarrow> char" where
  "digit d = ''0123456789'' ! d"

fun natToString :: "nat \<Rightarrow> string" where
  "natToString n =
     (if n < 10 then [digit n] else natToString (n div 10) @ [digit (n mod 10)])"

declare natToString.simps [simp del]

definition numberToString :: "int \<Rightarrow> string" where
  "numberToString i =
     (if i < 0 then CHR ''-'' # natToString (nat (- i)) else natToString (nat i))"

text \<open>
  \<^verbatim>\<open>`${v}`\<close>. An object is converted through its \<^verbatim>\<open>toString\<close> and then its
  \<^verbatim>\<open>valueOf\<close>: a cloned object's own properties are never functions, so an own
  \<^verbatim>\<open>toString\<close> hides the inherited one, the inherited \<^verbatim>\<open>valueOf\<close> returns the
  object itself, and the conversion throws.
\<close>

fun js_toString :: "jsval \<Rightarrow> js_error + string" where
  "js_toString JUndefined = Inr ''undefined''"
| "js_toString JNull = Inr ''null''"
| "js_toString (JBool b) = Inr (if b then ''true'' else ''false'')"
| "js_toString (JNum i) = Inr (numberToString i)"
| "js_toString (JStr s) = Inr s"
| "js_toString (JObj props) =
     (if map_of props ''toString'' \<noteq> None then Inl TypeError
      else Inr ''[object Object]'')"

subsection \<open>The protocol constants\<close>

text \<open>
  Modelled from the spec: the module \<^verbatim>\<open>./protocol\<close> is not among the sources; the spec
  gives the wire format
  \<^verbatim>\<open>{ type: "ready" }\<close>, \<^verbatim>\<open>{ type: "request", id, body }\<close>,
  \<^verbatim>\<open>{ type: "response", id, body?, err? }\<close>.
\<close>

definition MESSAGE_TYPE_READY :: string where
  "MESSAGE_TYPE_READY = ''ready''"

definition MESSAGE_TYPE_REQUEST :: string where
  "MESSAGE_TYPE_REQUEST = ''request''"

definition MESSAGE_TYPE_RESPONSE :: string where
  "MESSAGE_TYPE_RESPONSE = ''response''"

subsection \<open>Promises, connections and the module state\<close>

text \<open>A promise is fulfilled with a payload value or with a connection object.\<close>

datatype val = Data jsval | ConnRef nat

datatype promise = Pending | Fulfilled val | Rejected val

text \<open>
  The pair \<^verbatim>\<open>{resolve, reject}\<close> stored for a promise: each field names the promise
  whose resolving function it holds.
\<close>

record settlers =
  resolve :: nat
  reject :: nat

datatype settle_call = ResolveCall nat val | RejectCall nat val

record ExtConnection =
  origin :: string
  messageFrame :: nat
  nextId :: nat

record iframe =
  src :: string
  hidden :: bool

record posted =
  target :: nat
  message :: jsval
  targetOrigin :: string

record bridge =
  addedMessageListener :: bool
  connectionsPromised :: "string \<rightharpoonup> nat"
  connectionsRequested :: "string \<rightharpoonup> settlers"
  responseHandlers :: "string \<rightharpoonup> settlers"
  promises :: "promise list"
  connections :: "ExtConnection list"
  listeners :: nat
  frames :: "iframe list"
  postedMessages :: "posted list"
  settleLog :: "settle_call list"

text \<open>
  \<open>promises\<close> and \<open>connections\<close> are the heaps of promise and connection objects, an
  object being its index; \<open>listeners\<close> counts the calls of
  \<^verbatim>\<open>window.addEventListener('message', handleMessage)\<close>, \<open>frames\<close> lists the elements
  appended to \<^verbatim>\<open>document.body\<close>, \<open>postedMessages\<close> the calls of \<^verbatim>\<open>postMessage\<close>,
  and \<open>settleLog\<close> every call of a resolving function, with or without effect.
\<close>

definition init :: bridge where
  "init = \<lparr> addedMessageListener = False, connectionsPromised = Map.empty,
            connectionsRequested = Map.empty, responseHandlers = Map.empty,
            promises = [], connections = [], listeners = 0, frames = [],
            postedMessages = [], settleLog = [] \<rparr>"

text \<open>The registries are plain objects: \<^verbatim>\<open>key in obj\<close> and \<^verbatim>\<open>obj[key]\<close>.\<close>

definition js_in :: "string \<Rightarrow> (string \<rightharpoonup> 'a) \<Rightarrow> bool" where
  "js_in key obj = (obj key \<noteq> None \<or> key \<in> set objectPrototypeKeys)"

datatype 'a lookup = Own 'a | Inherited string | Absent

definition js_get :: "(string \<rightharpoonup> 'a) \<Rightarrow> string \<Rightarrow> 'a lookup" where
  "js_get obj key =
     (case obj key of
        Some v \<Rightarrow> Own v
      | None \<Rightarrow> if key \<in> set objectPrototypeKeys then Inherited key else Absent)"

text \<open>
  Calling the resolving functions of promise \<open>p\<close>: the first call settles the promise,
  every later call has no effect.
\<close>

definition settle :: "nat \<Rightarrow> promise \<Rightarrow> promise list \<Rightarrow> promise list" where
  "settle p outcome ps =
     (if p < length ps \<and> ps ! p = Pending then ps[p := outcome] else ps)"

definition call_resolve :: "nat \<Rightarrow> val \<Rightarrow> bridge \<Rightarrow> bridge" where
  "call_resolve p v s =
     s\<lparr> promises := settle p (Fulfilled v) (promises s),
        settleLog := settleLog s @ [ResolveCall p v] \<rparr>"

definition call_reject :: "nat \<Rightarrow> val \<Rightarrow> bridge \<Rightarrow> bridge" where
  "call_reject p v s =
     s\<lparr> promises := settle p (Rejected v) (promises s),
        settleLog := settleLog s @ [RejectCall p v] \<rparr>"

subsection \<open>The connection class\<close>

text \<open>
  \<^verbatim>\<open>this.nextId++\<close> on a number: exact below \<open>2^53\<close>; at \<open>2^53\<close> the sum
  \<open>2^53 + 1\<close> is not a double and rounds back to \<open>2^53\<close>. The counter starts at 0 and
  nothing else writes it, so it never leaves this range.
\<close>

definition precisionLimit :: nat where
  "precisionLimit = 2 ^ 53"

definition increment :: "nat \<Rightarrow> nat" where
  "increment n = (if n < precisionLimit then n + 1 else n)"

text \<open>\<^verbatim>\<open>new ExtConnection(origin, messageFrame)\<close>: the new object and the heap holding it.\<close>

definition newExtConnection :: "string \<Rightarrow> nat \<Rightarrow> bridge \<Rightarrow> nat \<times> bridge" where
  "newExtConnection orig frame s =
     (length (connections s),
      s\<lparr> connections := connections s @
            [\<lparr> origin = orig, messageFrame = frame, nextId = 0 \<rparr>] \<rparr>)"

definition handlerKeyOf :: "string \<Rightarrow> string \<Rightarrow> string" where
  "handlerKeyOf orig rendered = orig @ ''/'' @ rendered"

text \<open>
  \<^verbatim>\<open>connection.request(req)\<close> on the connection object \<open>c\<close>; \<open>None\<close> when \<open>c\<close> is no
  object of the heap, on which no call can be made. The executor of the new promise runs
  at once: it reads and increments the counter, stores the settlers under the handler key
  and posts the request. The result is the new promise.
\<close>

definition request :: "nat \<Rightarrow> jsval \<Rightarrow> bridge \<Rightarrow> (nat \<times> bridge) option" where
  "request c req s =
     (if c < length (connections s) then
        let this = connections s ! c;
            p = length (promises s);
            reqId = nextId this;
            handlerKey = handlerKeyOf (origin this) (numberToString (int reqId))
        in Some (p,
             s\<lparr> promises := promises s @ [Pending],
                connections := (connections s)[c := this\<lparr> nextId := increment reqId \<rparr>],
                responseHandlers :=
                  (responseHandlers s)(handlerKey \<mapsto> \<lparr> resolve = p, reject = p \<rparr>),
                postedMessages := postedMessages s @
                  [\<lparr> target = messageFrame this,
                     message = JObj [(''type'', JStr MESSAGE_TYPE_REQUEST),
                                     (''id'', JNum (int reqId)),
                                     (''body'', req)],
                     targetOrigin = origin this \<rparr>] \<rparr>)
      else None)"

subsection \<open>The message handler\<close>

record MessageEvent =
  data :: jsval
  eventOrigin :: string
  source :: nat

text \<open>
  A message event: \<open>eventOrigin\<close> is the field \<^verbatim>\<open>e.origin\<close> and \<open>source\<close> the window
  \<^verbatim>\<open>e.source\<close>, which the handler casts to \<^verbatim>\<open>WindowProxy\<close>.

  The result is the exception the handler throws, if any, and the state it leaves. In the
  \<^verbatim>\<open>READY\<close> case a slot found only through \<^verbatim>\<open>Object.prototype\<close> is a function
  or an object without \<^verbatim>\<open>resolve\<close>: the connection is constructed and the call of
  \<^verbatim>\<open>resolve\<close> throws. The same holds for a handler found only there.
\<close>

definition handleReady :: "MessageEvent \<Rightarrow> bridge \<Rightarrow> js_error option \<times> bridge" where
  "handleReady e s =
     (if \<not> js_in (eventOrigin e) (connectionsRequested s) then (None, s)
      else
        let slot = js_get (connectionsRequested s) (eventOrigin e);
            (connection, s1) = newExtConnection (eventOrigin e) (source e) s
        in case slot of
             Own h \<Rightarrow> (None, call_resolve (resolve h) (ConnRef connection) s1)
           | Inherited k \<Rightarrow> (Some TypeError, s1)
           | Absent \<Rightarrow> (Some TypeError, s1))"

definition handleResponse :: "MessageEvent \<Rightarrow> bridge \<Rightarrow> js_error option \<times> bridge" where
  "handleResponse e s =
     (let m = data e in
      case js_member m ''id'' of
        Inl ex \<Rightarrow> (Some ex, s)
      | Inr mid \<Rightarrow>
     (case js_toString mid of
        Inl ex \<Rightarrow> (Some ex, s)
      | Inr rendered \<Rightarrow>
     (let handlerKey = handlerKeyOf (eventOrigin e) rendered in
      if \<not> js_in handlerKey (responseHandlers s) then (None, s)
      else
        let handler = js_get (responseHandlers s) handlerKey;
            s1 = s\<lparr> responseHandlers := (responseHandlers s)(handlerKey := None) \<rparr>
        in case js_in_val ''err'' m of
             Inl ex \<Rightarrow> (Some ex, s1)
           | Inr has_err \<Rightarrow>
               if has_err then
                 (case (handler, js_member m ''err'') of
                    (Own h, Inr err) \<Rightarrow> (None, call_reject (reject h) (Data err) s1)
                  | _ \<Rightarrow> (Some TypeError, s1))
               else
                 (case (handler, js_member m ''body'') of
                    (Own h, Inr body) \<Rightarrow> (None, call_resolve (resolve h) (Data body) s1)
                  | _ \<Rightarrow> (Some TypeError, s1)))))"

definition handleMessage :: "MessageEvent \<Rightarrow> bridge \<Rightarrow> js_error option \<times> bridge" where
  "handleMessage e s =
     (case js_member (data e) ''type'' of
        Inl ex \<Rightarrow> (Some ex, s)
      | Inr messageType \<Rightarrow>
          if messageType = JStr MESSAGE_TYPE_READY then handleReady e s
          else if messageType = JStr MESSAGE_TYPE_RESPONSE then handleResponse e s
          else (None, s))"

subsection \<open>Connecting\<close>

definition frameOf :: "string \<Rightarrow> iframe" where
  "frameOf orig = \<lparr> src = orig @ ''/oasis-xu-frame.html'', hidden = True \<rparr>"

text \<open>
  \<^verbatim>\<open>connect(origin)\<close> returns \<^verbatim>\<open>connectionsPromised[origin]\<close>: the promise stored
  there, or what the registry object inherits under that name.
\<close>

definition connect :: "string \<Rightarrow> bridge \<Rightarrow> nat lookup \<times> bridge" where
  "connect orig s =
     (let s1 = (if \<not> addedMessageListener s
                then s\<lparr> listeners := listeners s + 1, addedMessageListener := True \<rparr>
                else s);
          s2 = (if \<not> js_in orig (connectionsPromised s1) then
                  let p = length (promises s1) in
                  s1\<lparr> promises := promises s1 @ [Pending],
                      connectionsRequested :=
                        (connectionsRequested s1)(orig \<mapsto> \<lparr> resolve = p, reject = p \<rparr>),
                      connectionsPromised := (connectionsPromised s1)(orig \<mapsto> p),
                      frames := frames s1 @ [frameOf orig] \<rparr>
                else s1)
      in (js_get (connectionsPromised s2) orig, s2))"

subsection \<open>Runs of the module\<close>

text \<open>
  What the page and the browser can do with the module: call \<^verbatim>\<open>connect\<close>, construct a
  connection (the class is exported), call \<^verbatim>\<open>request\<close> on a connection object, and
  deliver a message event to the handler. An exception thrown by the handler ends that
  delivery only: the run goes on from the state the handler left.
\<close>

datatype action =
    Connect string
  | Construct string nat
  | Request nat jsval
  | Deliver MessageEvent

fun step :: "action \<Rightarrow> bridge \<Rightarrow> bridge" where
  "step (Connect orig) s = snd (connect orig s)"
| "step (Construct orig frame) s = snd (newExtConnection orig frame s)"
| "step (Request c req) s = (case request c req s of None \<Rightarrow> s | Some (p, s') \<Rightarrow> s')"
| "step (Deliver e) s = snd (handleMessage e s)"

fun run :: "action list \<Rightarrow> bridge \<Rightarrow> bridge" where
  "run [] s = s"
| "run (a # as) s = run as (step a s)"

subsection \<open>Notions used in the statements\<close>

text \<open>The value of a decimal numeral, to show that rendering is injective.\<close>

definition digitValue :: "char \<Rightarrow> nat" where
  "digitValue ch = of_char ch - 48"

fun stringToNat :: "string \<Rightarrow> nat" where
  "stringToNat cs = foldl (\<lambda>a ch. 10 * a + digitValue ch) 0 cs"

text \<open>
  The registries as \<^verbatim>\<open>connect\<close>, \<^verbatim>\<open>request\<close> and the handler keep them: a promised
  connection has its promise on the heap, never rejected, and its slot holds that promise's
  resolving functions; distinct origins have distinct promises; the settlers of a pending
  request belong to one promise, which is no connection promise.
\<close>

definition registry_ok :: "bridge \<Rightarrow> bool" where
  "registry_ok s \<longleftrightarrow>
     (\<forall>orig p. connectionsPromised s orig = Some p \<longrightarrow>
        p < length (promises s) \<and> (\<forall>v. promises s ! p \<noteq> Rejected v) \<and>
        connectionsRequested s orig = Some \<lparr> resolve = p, reject = p \<rparr>) \<and>
     (\<forall>orig h. connectionsRequested s orig = Some h \<longrightarrow>
        connectionsPromised s orig = Some (resolve h)) \<and>
     (\<forall>orig orig' p. connectionsPromised s orig = Some p \<longrightarrow>
        connectionsPromised s orig' = Some p \<longrightarrow> orig = orig') \<and>
     (\<forall>k h. responseHandlers s k = Some h \<longrightarrow>
        resolve h < length (promises s) \<and> reject h = resolve h \<and>
        (\<forall>orig. connectionsPromised s orig \<noteq> Some (resolve h)))"

text \<open>The delivery of a \<^verbatim>\<open>READY\<close> message from the origin \<open>orig\<close>.\<close>

definition isReadyFrom :: "string \<Rightarrow> action \<Rightarrow> bool" where
  "isReadyFrom orig a =
     (case a of
        Deliver e \<Rightarrow> eventOrigin e = orig \<and>
                     js_member (data e) ''type'' = Inr (JStr MESSAGE_TYPE_READY)
      | _ \<Rightarrow> False)"

definition isConnect :: "action \<Rightarrow> bool" where
  "isConnect a = (case a of Connect orig \<Rightarrow> True | _ \<Rightarrow> False)"

text \<open>
  The ids allocated on the connection object \<open>c\<close> along a run: the value
  \<^verbatim>\<open>this.nextId++\<close> reads at each call of \<^verbatim>\<open>request\<close> on \<open>c\<close>, in order
  (\<open>request_allocates\<close>: it is the id posted and the id of the handler key).
\<close>

definition isRequestOn :: "nat \<Rightarrow> action \<Rightarrow> bool" where
  "isRequestOn c a = (case a of Request c' req \<Rightarrow> c' = c | _ \<Rightarrow> False)"

definition requestsOn :: "nat \<Rightarrow> action list \<Rightarrow> nat" where
  "requestsOn c as = length (filter (isRequestOn c) as)"

fun allocatedIds :: "nat \<Rightarrow> action list \<Rightarrow> bridge \<Rightarrow> nat list" where
  "allocatedIds c [] s = []"
| "allocatedIds c (a # as) s =
     (if isRequestOn c a \<and> c < length (connections s)
      then [nextId (connections s ! c)] else [])
     @ allocatedIds c as (step a s)"

section \<open>Properties\<close>

subsection \<open>Keys, rendering and registry lookups\<close>

lemma read_names_not_inherited:
  "''type'' \<notin> set objectPrototypeKeys" "''id'' \<notin> set objectPrototypeKeys"
  "''body'' \<notin> set objectPrototypeKeys" "''err'' \<notin> set objectPrototypeKeys"
  by (simp_all add: objectPrototypeKeys_def)

lemma handlerKeyOf_inject: "handlerKeyOf orig r = handlerKeyOf orig r' \<longleftrightarrow> r = r'"
  by (simp add: handlerKeyOf_def)

lemma digitValue_digit: "d < 10 \<Longrightarrow> digitValue (digit d) = d"
proof -
  assume "d < 10"
  then have "d \<in> {0,1,2,3,4,5,6,7,8,9}" by auto
  then show ?thesis by (auto simp: digit_def digitValue_def)
qed

lemma stringToNat_natToString: "stringToNat (natToString n) = n"
proof (induction n rule: natToString.induct)
  case (1 n)
  show ?case
  proof (cases "n < 10")
    case True
    then show ?thesis by (subst natToString.simps) (simp add: digitValue_digit)
  next
    case False
    with 1 have "stringToNat (natToString (n div 10)) = n div 10" by simp
    with False show ?thesis
      by (subst natToString.simps) (simp add: digitValue_digit)
  qed
qed

lemma natToString_inject: "natToString m = natToString n \<longleftrightarrow> m = n"
  using stringToNat_natToString by metis

lemma slash_in_handlerKey: "CHR ''/'' \<in> set (handlerKeyOf orig r)"
  by (simp add: handlerKeyOf_def)

lemma no_slash_inherited: "k \<in> set objectPrototypeKeys \<Longrightarrow> CHR ''/'' \<notin> set k"
  by (auto simp: objectPrototypeKeys_def)

lemma handlerKey_not_inherited: "handlerKeyOf orig r \<notin> set objectPrototypeKeys"
  using slash_in_handlerKey no_slash_inherited by blast

lemma js_in_handlerKey:
  "js_in (handlerKeyOf orig r) obj \<longleftrightarrow> obj (handlerKeyOf orig r) \<noteq> None"
  by (simp add: js_in_def handlerKey_not_inherited)

lemma js_get_Some: "obj key = Some v \<Longrightarrow> js_get obj key = Own v"
  by (simp add: js_get_def)

lemma handleResponse_matched:
  assumes d: "data e = JObj props"
    and i: "map_of props ''id'' = Some mid"
    and r: "js_toString mid = Inr rendered"
    and h: "responseHandlers s (handlerKeyOf (eventOrigin e) rendered) = Some h"
  shows "handleResponse e s =
     (None,
      (case map_of props ''err'' of
         Some err \<Rightarrow> call_reject (reject h) (Data err)
       | None \<Rightarrow> call_resolve (resolve h)
           (Data (case map_of props ''body'' of Some b \<Rightarrow> b | None \<Rightarrow> JUndefined)))
        (s\<lparr> responseHandlers :=
             (responseHandlers s)(handlerKeyOf (eventOrigin e) rendered := None) \<rparr>))"
  using assms
  by (simp add: handleResponse_def js_in_handlerKey js_get_Some objectPrototypeKeys_def
      split: option.splits)

lemma handleResponse_unmatched:
  assumes d: "data e = JObj props"
    and i: "js_member (data e) ''id'' = Inr mid"
    and r: "js_toString mid = Inr rendered"
    and h: "responseHandlers s (handlerKeyOf (eventOrigin e) rendered) = None"
  shows "handleResponse e s = (None, s)"
  using assms
  by (simp add: handleResponse_def js_in_handlerKey)

lemma handleMessage_response:
  "data e = JObj props \<Longrightarrow> map_of props ''type'' = Some (JStr MESSAGE_TYPE_RESPONSE) \<Longrightarrow>
   handleMessage e s = handleResponse e s"
  by (simp add: handleMessage_def MESSAGE_TYPE_READY_def MESSAGE_TYPE_RESPONSE_def)

lemma length_settle [simp]: "length (settle p outcome ps) = length ps"
  by (simp add: settle_def)

lemma settle_nth_other: "q \<noteq> p \<Longrightarrow> settle p outcome ps ! q = ps ! q"
  by (simp add: settle_def)

lemma settle_nth_settled: "ps ! q \<noteq> Pending \<Longrightarrow> settle p outcome ps ! q = ps ! q"
  by (cases "q = p") (simp_all add: settle_def)

lemma call_resolve_fields [simp]:
  "addedMessageListener (call_resolve p v s) = addedMessageListener s"
  "connectionsPromised (call_resolve p v s) = connectionsPromised s"
  "connectionsRequested (call_resolve p v s) = connectionsRequested s"
  "responseHandlers (call_resolve p v s) = responseHandlers s"
  "connections (call_resolve p v s) = connections s"
  "listeners (call_resolve p v s) = listeners s"
  "frames (call_resolve p v s) = frames s"
  "postedMessages (call_resolve p v s) = postedMessages s"
  "promises (call_resolve p v s) = settle p (Fulfilled v) (promises s)"
  "settleLog (call_resolve p v s) = settleLog s @ [ResolveCall p v]"
  by (simp_all add: call_resolve_def)

lemma call_reject_fields [simp]:
  "addedMessageListener (call_reject p v s) = addedMessageListener s"
  "connectionsPromised (call_reject p v s) = connectionsPromised s"
  "connectionsRequested (call_reject p v s) = connectionsRequested s"
  "responseHandlers (call_reject p v s) = responseHandlers s"
  "connections (call_reject p v s) = connections s"
  "listeners (call_reject p v s) = listeners s"
  "frames (call_reject p v s) = frames s"
  "postedMessages (call_reject p v s) = postedMessages s"
  "promises (call_reject p v s) = settle p (Rejected v) (promises s)"
  "settleLog (call_reject p v s) = settleLog s @ [RejectCall p v]"
  by (simp_all add: call_reject_def)

text \<open>What a delivery leaves alone.\<close>

lemma handleReady_frame:
  "addedMessageListener (snd (handleReady e s)) = addedMessageListener s \<and>
   connectionsPromised (snd (handleReady e s)) = connectionsPromised s \<and>
   connectionsRequested (snd (handleReady e s)) = connectionsRequested s \<and>
   responseHandlers (snd (handleReady e s)) = responseHandlers s \<and>
   listeners (snd (handleReady e s)) = listeners s \<and>
   frames (snd (handleReady e s)) = frames s \<and>
   postedMessages (snd (handleReady e s)) = postedMessages s"
  by (simp add: handleReady_def newExtConnection_def split: lookup.splits)

lemma handleResponse_frame:
  "addedMessageListener (snd (handleResponse e s)) = addedMessageListener s \<and>
   connectionsPromised (snd (handleResponse e s)) = connectionsPromised s \<and>
   connectionsRequested (snd (handleResponse e s)) = connectionsRequested s \<and>
   connections (snd (handleResponse e s)) = connections s \<and>
   listeners (snd (handleResponse e s)) = listeners s \<and>
   frames (snd (handleResponse e s)) = frames s \<and>
   postedMessages (snd (handleResponse e s)) = postedMessages s"
  by (simp add: handleResponse_def Let_def split: sum.splits lookup.splits)

lemma handleMessage_frame:
  "addedMessageListener (snd (handleMessage e s)) = addedMessageListener s \<and>
   connectionsPromised (snd (handleMessage e s)) = connectionsPromised s \<and>
   connectionsRequested (snd (handleMessage e s)) = connectionsRequested s \<and>
   listeners (snd (handleMessage e s)) = listeners s \<and>
   frames (snd (handleMessage e s)) = frames s \<and>
   postedMessages (snd (handleMessage e s)) = postedMessages s"
  by (simp add: handleMessage_def handleReady_frame handleResponse_frame split: sum.splits)

text \<open>A delivery changes the promise heap by at most one call of a resolving function.\<close>

lemma handleReady_promises:
  "promises (snd (handleReady e s)) = promises s \<or>
   (\<exists>h v. connectionsRequested s (eventOrigin e) = Some h \<and>
          promises (snd (handleReady e s)) = settle (resolve h) (Fulfilled v) (promises s))"
  by (auto simp: handleReady_def newExtConnection_def js_get_def split: lookup.splits option.splits if_splits)

lemma handleResponse_promises:
  "promises (snd (handleResponse e s)) = promises s \<or>
   (\<exists>k h outcome. responseHandlers s k = Some h \<and>
      (promises (snd (handleResponse e s)) = settle (resolve h) outcome (promises s) \<or>
       promises (snd (handleResponse e s)) = settle (reject h) outcome (promises s)))"
  by (auto simp: handleResponse_def Let_def js_get_def split: sum.splits lookup.splits option.splits if_splits)

lemma handleMessage_promises:
  "promises (snd (handleMessage e s)) = promises s \<or>
   (\<exists>p outcome. promises (snd (handleMessage e s)) = settle p outcome (promises s))"
  using handleReady_promises [of e s] handleResponse_promises [of e s]
  by (auto simp: handleMessage_def split: sum.splits)

lemma registry_ok_init: "registry_ok init"
  by (simp add: registry_ok_def init_def)

lemma connect_snd:
  "snd (connect orig s) =
     (let s1 = (if \<not> addedMessageListener s
                then s\<lparr> listeners := listeners s + 1, addedMessageListener := True \<rparr>
                else s)
      in if \<not> js_in orig (connectionsPromised s) then
           s1\<lparr> promises := promises s @ [Pending],
               connectionsRequested :=
                 (connectionsRequested s)(orig \<mapsto>
                    \<lparr> resolve = length (promises s), reject = length (promises s) \<rparr>),
               connectionsPromised := (connectionsPromised s)(orig \<mapsto> length (promises s)),
               frames := frames s @ [frameOf orig] \<rparr>
         else s1)"
  by (simp add: connect_def Let_def)

lemma connect_fst:
  "fst (connect orig s) = js_get (connectionsPromised (snd (connect orig s))) orig"
  by (simp add: connect_def Let_def)

lemma registry_okI:
  assumes "\<And>orig p. connectionsPromised s orig = Some p \<Longrightarrow> p < length (promises s)"
    and "\<And>orig p v. connectionsPromised s orig = Some p \<Longrightarrow> promises s ! p \<noteq> Rejected v"
    and "\<And>orig p. connectionsPromised s orig = Some p \<Longrightarrow>
           connectionsRequested s orig = Some \<lparr> resolve = p, reject = p \<rparr>"
    and "\<And>orig h. connectionsRequested s orig = Some h \<Longrightarrow>
           connectionsPromised s orig = Some (resolve h)"
    and "\<And>orig orig' p. connectionsPromised s orig = Some p \<Longrightarrow>
           connectionsPromised s orig' = Some p \<Longrightarrow> orig = orig'"
    and "\<And>k h. responseHandlers s k = Some h \<Longrightarrow> resolve h < length (promises s)"
    and "\<And>k h. responseHandlers s k = Some h \<Longrightarrow> reject h = resolve h"
    and "\<And>k h orig. responseHandlers s k = Some h \<Longrightarrow>
           connectionsPromised s orig \<noteq> Some (resolve h)"
  shows "registry_ok s"
  unfolding registry_ok_def using assms by blast

lemma promised_bound:
  "registry_ok s \<Longrightarrow> connectionsPromised s orig = Some p \<Longrightarrow> p < length (promises s)"
  unfolding registry_ok_def by blast

lemma promised_not_rejected:
  "registry_ok s \<Longrightarrow> connectionsPromised s orig = Some p \<Longrightarrow> promises s ! p \<noteq> Rejected v"
  unfolding registry_ok_def by blast

lemma promised_requested:
  "registry_ok s \<Longrightarrow> connectionsPromised s orig = Some p \<Longrightarrow>
   connectionsRequested s orig = Some \<lparr> resolve = p, reject = p \<rparr>"
  unfolding registry_ok_def by blast

lemma requested_promised:
  "registry_ok s \<Longrightarrow> connectionsRequested s orig = Some h \<Longrightarrow>
   connectionsPromised s orig = Some (resolve h)"
  unfolding registry_ok_def by blast

lemma promised_inj:
  "registry_ok s \<Longrightarrow> connectionsPromised s orig = Some p \<Longrightarrow>
   connectionsPromised s orig' = Some p \<Longrightarrow> orig = orig'"
  unfolding registry_ok_def by blast

lemma handler_bound:
  "registry_ok s \<Longrightarrow> responseHandlers s k = Some h \<Longrightarrow> resolve h < length (promises s)"
  unfolding registry_ok_def by blast

lemma handler_same:
  "registry_ok s \<Longrightarrow> responseHandlers s k = Some h \<Longrightarrow> reject h = resolve h"
  unfolding registry_ok_def by blast

lemma handler_not_promised:
  "registry_ok s \<Longrightarrow> responseHandlers s k = Some h \<Longrightarrow>
   connectionsPromised s orig \<noteq> Some (resolve h)"
  unfolding registry_ok_def by blast

lemma registry_ok_connect:
  assumes ok: "registry_ok s"
  shows "registry_ok (snd (connect orig s))"
proof (cases "js_in orig (connectionsPromised s)")
  case True
  with ok show ?thesis by (simp add: connect_snd registry_ok_def)
next
  case False
  then have none: "connectionsPromised s orig = None" by (simp add: js_in_def)
  define n where "n = length (promises s)"
  define s' where "s' = snd (connect orig s)"
  have P: "connectionsPromised s' = (connectionsPromised s)(orig \<mapsto> n)"
    and R: "connectionsRequested s' =
              (connectionsRequested s)(orig \<mapsto> \<lparr> resolve = n, reject = n \<rparr>)"
    and H: "responseHandlers s' = responseHandlers s"
    and Q: "promises s' = promises s @ [Pending]"
    using False by (simp_all add: s'_def n_def connect_snd Let_def)
  have "registry_ok s'"
  proof (rule registry_okI)
    fix o' p assume a: "connectionsPromised s' o' = Some p"
    show "p < length (promises s')"
      using a promised_bound [OF ok, of o' p] by (auto simp: P Q n_def split: if_splits)
    show "connectionsRequested s' o' = Some \<lparr> resolve = p, reject = p \<rparr>"
      using a promised_requested [OF ok, of o' p] by (auto simp: P R split: if_splits)
    fix v show "promises s' ! p \<noteq> Rejected v"
      using a promised_bound [OF ok, of o' p] promised_not_rejected [OF ok, of o' p v]
      by (auto simp: P Q n_def nth_append split: if_splits)
  next
    fix o' h assume a: "connectionsRequested s' o' = Some h"
    show "connectionsPromised s' o' = Some (resolve h)"
      using a requested_promised [OF ok, of o' h] by (auto simp: P R split: if_splits)
  next
    fix o1 o2 p
    assume a: "connectionsPromised s' o1 = Some p" and b: "connectionsPromised s' o2 = Some p"
    show "o1 = o2"
      using a b promised_bound [OF ok, of o1 p] promised_bound [OF ok, of o2 p]
        promised_inj [OF ok, of o1 p o2]
      by (auto simp: P n_def split: if_splits)
  next
    fix k h assume a: "responseHandlers s' k = Some h"
    show "resolve h < length (promises s')"
      using a handler_bound [OF ok, of k h] by (simp add: H Q)
    show "reject h = resolve h"
      using a handler_same [OF ok, of k h] by (simp add: H)
    fix o' show "connectionsPromised s' o' \<noteq> Some (resolve h)"
      using a handler_bound [OF ok, of k h] handler_not_promised [OF ok, of k h o']
      by (auto simp: P H n_def)
  qed
  then show ?thesis by (simp add: s'_def)
qed

lemma handleMessage_cases:
  "promises (snd (handleMessage e s)) = promises s \<or>
   (\<exists>h v. js_member (data e) ''type'' = Inr (JStr MESSAGE_TYPE_READY) \<and>
          connectionsRequested s (eventOrigin e) = Some h \<and>
          promises (snd (handleMessage e s)) = settle (resolve h) (Fulfilled v) (promises s)) \<or>
   (\<exists>k h outcome. responseHandlers s k = Some h \<and>
      (promises (snd (handleMessage e s)) = settle (resolve h) outcome (promises s) \<or>
       promises (snd (handleMessage e s)) = settle (reject h) outcome (promises s)))"
  using handleReady_promises [of e s] handleResponse_promises [of e s]
  by (auto simp: handleMessage_def split: sum.splits)

lemma handleResponse_handlers:
  "responseHandlers (snd (handleResponse e s)) \<subseteq>\<^sub>m responseHandlers s"
  by (auto simp: handleResponse_def Let_def map_le_def split: sum.splits lookup.splits if_splits)

lemma handleMessage_handlers:
  "responseHandlers (snd (handleMessage e s)) \<subseteq>\<^sub>m responseHandlers s"
  using handleResponse_handlers [of e s] handleReady_frame [of e s]
  by (auto simp: handleMessage_def split: sum.splits)

lemma registry_ok_settle:
  assumes ok: "registry_ok s"
    and P: "connectionsPromised s' = connectionsPromised s"
    and R: "connectionsRequested s' = connectionsRequested s"
    and H: "responseHandlers s' \<subseteq>\<^sub>m responseHandlers s"
    and Q: "promises s' = promises s \<or>
            (\<exists>q outcome. promises s' = settle q outcome (promises s) \<and>
               ((\<forall>orig. connectionsPromised s orig \<noteq> Some q) \<or> (\<exists>v. outcome = Fulfilled v)))"
  shows "registry_ok s'"
proof (rule registry_okI)
  have len: "length (promises s') = length (promises s)" using Q by auto
  have sub: "\<And>k h. responseHandlers s' k = Some h \<Longrightarrow> responseHandlers s k = Some h"
    using H by (auto simp: map_le_def dom_def)
  {
    fix orig p assume a: "connectionsPromised s' orig = Some p"
    then have a': "connectionsPromised s orig = Some p" by (simp add: P)
    show "p < length (promises s')" using promised_bound [OF ok a'] len by simp
    show "connectionsRequested s' orig = Some \<lparr> resolve = p, reject = p \<rparr>"
      using promised_requested [OF ok a'] by (simp add: R)
    fix v
    show "promises s' ! p \<noteq> Rejected v"
    proof -
      from Q consider "promises s' = promises s"
        | q outcome where "promises s' = settle q outcome (promises s)"
            "\<forall>orig. connectionsPromised s orig \<noteq> Some q"
        | q w where "promises s' = settle q (Fulfilled w) (promises s)"
        by blast
      then show ?thesis
      proof cases
        case 1 then show ?thesis using promised_not_rejected [OF ok a'] by simp
      next
        case 2
        with a' have "q \<noteq> p" by auto
        then show ?thesis using 2 promised_not_rejected [OF ok a', of v]
          by (simp add: settle_def)
      next
        case 3
        then show ?thesis using promised_not_rejected [OF ok a', of v]
          by (auto simp: settle_def nth_list_update split: if_splits)
      qed
    qed
  }
  {
    fix orig h assume "connectionsRequested s' orig = Some h"
    then show "connectionsPromised s' orig = Some (resolve h)"
      using requested_promised [OF ok, of orig h] by (simp add: P R)
  }
  {
    fix o1 o2 p
    assume "connectionsPromised s' o1 = Some p" "connectionsPromised s' o2 = Some p"
    then show "o1 = o2" using promised_inj [OF ok, of o1 p o2] by (simp add: P)
  }
  {
    fix k h assume a: "responseHandlers s' k = Some h"
    show "resolve h < length (promises s')" using handler_bound [OF ok sub [OF a]] len by simp
    show "reject h = resolve h" using handler_same [OF ok sub [OF a]] .
    fix orig show "connectionsPromised s' orig \<noteq> Some (resolve h)"
      using handler_not_promised [OF ok sub [OF a]] by (simp add: P)
  }
qed

lemma registry_ok_handleMessage:
  assumes ok: "registry_ok s"
  shows "registry_ok (snd (handleMessage e s))"
proof (rule registry_ok_settle [OF ok])
  show "connectionsPromised (snd (handleMessage e s)) = connectionsPromised s"
    and "connectionsRequested (snd (handleMessage e s)) = connectionsRequested s"
    using handleMessage_frame [of e s] by simp_all
  show "responseHandlers (snd (handleMessage e s)) \<subseteq>\<^sub>m responseHandlers s"
    by (rule handleMessage_handlers)
  from handleMessage_cases [of e s]
  show "promises (snd (handleMessage e s)) = promises s \<or>
        (\<exists>q outcome. promises (snd (handleMessage e s)) = settle q outcome (promises s) \<and>
           ((\<forall>orig. connectionsPromised s orig \<noteq> Some q) \<or> (\<exists>v. outcome = Fulfilled v)))"
  proof (elim disjE exE conjE)
    assume "promises (snd (handleMessage e s)) = promises s"
    then show ?thesis by simp
  next
    fix h v
    assume "promises (snd (handleMessage e s)) = settle (resolve h) (Fulfilled v) (promises s)"
    then show ?thesis by blast
  next
    fix k h outcome
    assume h: "responseHandlers s k = Some h"
      and "promises (snd (handleMessage e s)) = settle (resolve h) outcome (promises s)"
    then show ?thesis using handler_not_promised [OF ok h] by blast
  next
    fix k h outcome
    assume h: "responseHandlers s k = Some h"
      and "promises (snd (handleMessage e s)) = settle (reject h) outcome (promises s)"
    then show ?thesis using handler_not_promised [OF ok h] handler_same [OF ok h] by metis
  qed
qed

lemma registry_ok_request:
  assumes ok: "registry_ok s" and r: "request c req s = Some (p, s')"
  shows "registry_ok s'"
proof -
  from r have c: "c < length (connections s)" by (simp add: request_def split: if_splits)
  define key where
    "key = handlerKeyOf (origin (connections s ! c))
             (numberToString (int (nextId (connections s ! c))))"
  from r c have P: "connectionsPromised s' = connectionsPromised s"
    and R: "connectionsRequested s' = connectionsRequested s"
    and H: "responseHandlers s' = (responseHandlers s)(key \<mapsto>
              \<lparr> resolve = length (promises s), reject = length (promises s) \<rparr>)"
    and Q: "promises s' = promises s @ [Pending]"
    by (auto simp: request_def Let_def key_def)
  show ?thesis
  proof (rule registry_okI)
    fix orig q assume a: "connectionsPromised s' orig = Some q"
    then have a': "connectionsPromised s orig = Some q" by (simp add: P)
    show "q < length (promises s')" using promised_bound [OF ok a'] by (simp add: Q)
    show "connectionsRequested s' orig = Some \<lparr> resolve = q, reject = q \<rparr>"
      using promised_requested [OF ok a'] by (simp add: R)
    fix v show "promises s' ! q \<noteq> Rejected v"
      using promised_bound [OF ok a'] promised_not_rejected [OF ok a', of v]
      by (simp add: Q nth_append)
  next
    fix orig h assume "connectionsRequested s' orig = Some h"
    then show "connectionsPromised s' orig = Some (resolve h)"
      using requested_promised [OF ok, of orig h] by (simp add: P R)
  next
    fix o1 o2 q
    assume "connectionsPromised s' o1 = Some q" "connectionsPromised s' o2 = Some q"
    then show "o1 = o2" using promised_inj [OF ok, of o1 q o2] by (simp add: P)
  next
    fix k h assume a: "responseHandlers s' k = Some h"
    show "resolve h < length (promises s')"
      using a handler_bound [OF ok, of k h] by (auto simp: H Q split: if_splits)
    show "reject h = resolve h"
      using a handler_same [OF ok, of k h] by (auto simp: H split: if_splits)
    fix orig show "connectionsPromised s' orig \<noteq> Some (resolve h)"
      using a handler_not_promised [OF ok, of k h orig] promised_bound [OF ok, of orig "resolve h"]
      by (auto simp: H P split: if_splits)
  qed
qed

lemma registry_ok_step: "registry_ok s \<Longrightarrow> registry_ok (step a s)"
proof (cases a)
  case (Connect orig)
  assume "registry_ok s" then show ?thesis using Connect by (simp add: registry_ok_connect)
next
  case (Construct orig frame)
  assume "registry_ok s" then show ?thesis using Construct
    by (simp add: newExtConnection_def registry_ok_def)
next
  case (Request c req)
  assume "registry_ok s" then show ?thesis using Request
    by (auto split: option.splits dest: registry_ok_request)
next
  case (Deliver e)
  assume "registry_ok s" then show ?thesis using Deliver by (simp add: registry_ok_handleMessage)
qed

lemma registry_ok_run: "registry_ok s \<Longrightarrow> registry_ok (run as s)"
  by (induction as arbitrary: s) (simp_all add: registry_ok_step)

text \<open>Promises: the heap only grows, and a settled promise never changes.\<close>

lemma connect_promises:
  "promises (snd (connect orig s)) =
     (if js_in orig (connectionsPromised s) then promises s else promises s @ [Pending])"
  by (simp add: connect_snd Let_def)

lemma request_promises:
  "request c req s = Some (p, s') \<Longrightarrow> p = length (promises s) \<and> promises s' = promises s @ [Pending]"
  by (auto simp: request_def Let_def split: if_splits)

lemma step_promises:
  "promises (step a s) = promises s \<or> promises (step a s) = promises s @ [Pending] \<or>
   (\<exists>q outcome. promises (step a s) = settle q outcome (promises s))"
proof (cases a)
  case (Connect orig) then show ?thesis by (simp add: connect_promises)
next
  case (Construct orig frame) then show ?thesis by (simp add: newExtConnection_def)
next
  case (Request c req) then show ?thesis
    by (auto split: option.splits dest: request_promises)
next
  case (Deliver e) then show ?thesis using handleMessage_promises [of e s] by auto
qed

lemma step_promises_length: "length (promises s) \<le> length (promises (step a s))"
  using step_promises [of a s] by auto

lemma step_settled_stable:
  assumes "p < length (promises s)" "promises s ! p \<noteq> Pending"
  shows "promises (step a s) ! p = promises s ! p"
  using step_promises [of a s] assms by (auto simp: nth_append settle_nth_settled)

lemma run_settled_stable:
  "p < length (promises s) \<Longrightarrow> promises s ! p \<noteq> Pending \<Longrightarrow>
   p < length (promises (run as s)) \<and> promises (run as s) ! p = promises s ! p"
proof (induction as arbitrary: s)
  case Nil then show ?case by simp
next
  case (Cons a as)
  have 1: "p < length (promises (step a s))"
    using Cons.prems(1) step_promises_length [of s a] by simp
  have 2: "promises (step a s) ! p = promises s ! p"
    using Cons.prems by (rule step_settled_stable)
  show ?case using Cons.IH [OF 1] 2 Cons.prems(2) by simp
qed

text \<open>The registry of promised connections only grows.\<close>

lemma step_promised:
  "connectionsPromised s orig = Some p \<Longrightarrow> connectionsPromised (step a s) orig = Some p"
proof (cases a)
  case (Connect o') 
  assume "connectionsPromised s orig = Some p"
  then show ?thesis using Connect by (auto simp: connect_snd Let_def js_in_def)
next
  case (Construct o' frame)
  assume "connectionsPromised s orig = Some p"
  then show ?thesis using Construct by (simp add: newExtConnection_def)
next
  case (Request c req)
  assume "connectionsPromised s orig = Some p"
  then show ?thesis using Request
    by (auto simp: request_def Let_def split: option.splits if_splits)
next
  case (Deliver e)
  assume "connectionsPromised s orig = Some p"
  then show ?thesis using Deliver handleMessage_frame [of e s] by simp
qed

lemma run_promised:
  "connectionsPromised s orig = Some p \<Longrightarrow> connectionsPromised (run as s) orig = Some p"
  by (induction as arbitrary: s) (simp_all add: step_promised)

text \<open>A connection promise stays pending under every step but a READY from its origin.\<close>

lemma step_pending:
  assumes ok: "registry_ok s"
    and pend: "\<forall>p. connectionsPromised s orig = Some p \<longrightarrow> promises s ! p = Pending"
    and nr: "\<not> isReadyFrom orig a"
  shows "\<forall>p. connectionsPromised (step a s) orig = Some p \<longrightarrow> promises (step a s) ! p = Pending"
proof (cases a)
  case (Connect o')
  show ?thesis
    using pend promised_bound [OF ok, of orig] unfolding Connect
    by (auto simp: connect_snd Let_def nth_append js_in_def split: if_splits)
next
  case (Construct o' frame)
  then show ?thesis using pend by (simp add: newExtConnection_def)
next
  case (Request c req)
  show ?thesis
  proof (cases "request c req s")
    case None then show ?thesis using pend Request by simp
  next
    case (Some r)
    obtain q s' where r: "r = (q, s')" by (cases r)
    from Some r have P: "connectionsPromised s' = connectionsPromised s"
      by (auto simp: request_def Let_def split: if_splits)
    from Some r have Q: "promises s' = promises s @ [Pending]"
      using request_promises by blast
    show ?thesis using pend promised_bound [OF ok, of orig] Some r Request
      by (auto simp: P Q nth_append)
  qed
next
  case (Deliver e)
  have P: "connectionsPromised (snd (handleMessage e s)) = connectionsPromised s"
    using handleMessage_frame [of e s] by simp
  {
    fix p assume a: "connectionsPromised s orig = Some p"
    then have pp: "promises s ! p = Pending" using pend by simp
    from handleMessage_cases [of e s]
    have "promises (snd (handleMessage e s)) ! p = Pending"
    proof (elim disjE exE conjE)
      assume "promises (snd (handleMessage e s)) = promises s"
      then show ?thesis using pp by simp
    next
      fix h v
      assume t: "js_member (data e) ''type'' = Inr (JStr MESSAGE_TYPE_READY)"
        and h: "connectionsRequested s (eventOrigin e) = Some h"
        and q: "promises (snd (handleMessage e s)) = settle (resolve h) (Fulfilled v) (promises s)"
      from nr t Deliver have "eventOrigin e \<noteq> orig" by (auto simp: isReadyFrom_def)
      with requested_promised [OF ok h] a have "resolve h \<noteq> p"
        using promised_inj [OF ok] by blast
      then show ?thesis using q pp by (simp add: settle_nth_other)
    next
      fix k h outcome
      assume h: "responseHandlers s k = Some h"
        and q: "promises (snd (handleMessage e s)) = settle (resolve h) outcome (promises s)"
      from handler_not_promised [OF ok h, of orig] a have "resolve h \<noteq> p" by auto
      then show ?thesis using q pp by (simp add: settle_nth_other)
    next
      fix k h outcome
      assume h: "responseHandlers s k = Some h"
        and q: "promises (snd (handleMessage e s)) = settle (reject h) outcome (promises s)"
      from handler_not_promised [OF ok h, of orig] handler_same [OF ok h] a
      have "reject h \<noteq> p" by auto
      then show ?thesis using q pp by (simp add: settle_nth_other)
    qed
  }
  then show ?thesis using Deliver by (simp add: P)
qed

lemma run_pending:
  assumes "registry_ok s"
    and "\<forall>p. connectionsPromised s orig = Some p \<longrightarrow> promises s ! p = Pending"
    and "\<forall>a \<in> set as. \<not> isReadyFrom orig a"
  shows "\<forall>p. connectionsPromised (run as s) orig = Some p \<longrightarrow> promises (run as s) ! p = Pending"
  using assms
proof (induction as arbitrary: s)
  case Nil then show ?case by simp
next
  case (Cons a as)
  have "registry_ok (step a s)" using Cons.prems(1) by (rule registry_ok_step)
  moreover have "\<forall>p. connectionsPromised (step a s) orig = Some p \<longrightarrow>
                     promises (step a s) ! p = Pending"
    using Cons.prems by (intro step_pending) simp_all
  ultimately show ?case using Cons.IH Cons.prems(3) by simp
qed

lemma run_append: "run (as @ bs) s = run bs (run as s)"
  by (induction as arbitrary: s) simp_all

text \<open>Once an origin is connected, later steps leave its promise and the listener flag alone.\<close>

lemma connect_installed:
  "addedMessageListener (snd (connect orig s)) \<and> js_in orig (connectionsPromised (snd (connect orig s)))"
  by (simp add: connect_snd Let_def js_in_def)

lemma connect_again:
  "addedMessageListener s \<Longrightarrow> js_in orig (connectionsPromised s) \<Longrightarrow>
   connect orig s = (js_get (connectionsPromised s) orig, s)"
  by (simp add: connect_def)

lemma step_listener:
  "addedMessageListener s \<Longrightarrow> addedMessageListener (step a s)"
proof (cases a)
  case (Connect o')
  assume "addedMessageListener s" then show ?thesis using Connect by (simp add: connect_snd Let_def)
next
  case (Construct o' frame)
  assume "addedMessageListener s" then show ?thesis using Construct by (simp add: newExtConnection_def)
next
  case (Request c req)
  assume "addedMessageListener s" then show ?thesis using Request
    by (auto simp: request_def Let_def split: option.splits if_splits)
next
  case (Deliver e)
  assume "addedMessageListener s" then show ?thesis using Deliver handleMessage_frame [of e s] by simp
qed

lemma step_promised_in:
  assumes "js_in orig (connectionsPromised s)"
  shows "connectionsPromised (step a s) orig = connectionsPromised s orig"
proof (cases a)
  case (Connect o')
  then show ?thesis using assms by (auto simp: connect_snd Let_def)
next
  case (Construct o' frame)
  then show ?thesis by (simp add: newExtConnection_def)
next
  case (Request c req)
  then show ?thesis by (auto simp: request_def Let_def split: option.splits if_splits)
next
  case (Deliver e)
  then show ?thesis using handleMessage_frame [of e s] by simp
qed

lemma run_connected:
  "addedMessageListener s \<Longrightarrow> js_in orig (connectionsPromised s) \<Longrightarrow>
   addedMessageListener (run as s) \<and> connectionsPromised (run as s) orig = connectionsPromised s orig"
proof (induction as arbitrary: s)
  case Nil then show ?case by simp
next
  case (Cons a as)
  have 1: "addedMessageListener (step a s)" using Cons.prems(1) by (rule step_listener)
  have 2: "connectionsPromised (step a s) orig = connectionsPromised s orig"
    using Cons.prems(2) by (rule step_promised_in)
  then have 3: "js_in orig (connectionsPromised (step a s))"
    using Cons.prems(2) by (simp add: js_in_def)
  show ?case using Cons.IH [OF 1 3] 2 by simp
qed

text \<open>The listener count follows the flag.\<close>

lemma step_listeners:
  assumes "listeners s = (if addedMessageListener s then 1 else 0)"
  shows "listeners (step a s) = (if addedMessageListener (step a s) then 1 else 0) \<and>
         addedMessageListener (step a s) = (addedMessageListener s \<or> isConnect a)"
proof (cases a)
  case (Connect o')
  then show ?thesis using assms by (simp add: connect_snd Let_def isConnect_def)
next
  case (Construct o' frame)
  then show ?thesis using assms by (simp add: newExtConnection_def isConnect_def)
next
  case (Request c req)
  then show ?thesis using assms
    by (auto simp: request_def Let_def isConnect_def split: option.splits if_splits)
next
  case (Deliver e)
  then show ?thesis using assms handleMessage_frame [of e s] by (simp add: isConnect_def)
qed

lemma run_listeners:
  "listeners s = (if addedMessageListener s then 1 else 0) \<Longrightarrow>
   listeners (run as s) = (if addedMessageListener s \<or> list_ex isConnect as then 1 else 0) \<and>
   addedMessageListener (run as s) = (addedMessageListener s \<or> list_ex isConnect as)"
proof (induction as arbitrary: s)
  case Nil then show ?case by simp
next
  case (Cons a as)
  from step_listeners [OF Cons.prems, of a]
  have 1: "listeners (step a s) = (if addedMessageListener (step a s) then 1 else 0)"
    and 2: "addedMessageListener (step a s) = (addedMessageListener s \<or> isConnect a)"
    by simp_all
  show ?case using Cons.IH [OF 1] 2 by auto
qed

lemma natToString_small [simp]: "n < 10 \<Longrightarrow> natToString n = [digit n]"
  by (simp add: natToString.simps)

text \<open>The heap of connection objects only grows.\<close>

lemma handleMessage_connections:
  "connections (snd (handleMessage e s)) = connections s \<or>
   connections (snd (handleMessage e s)) = connections s @
     [\<lparr> origin = eventOrigin e, messageFrame = source e, nextId = 0 \<rparr>]"
  using handleResponse_frame [of e s]
  by (auto simp: handleMessage_def handleReady_def newExtConnection_def
      split: sum.splits lookup.splits)

lemma step_connections_length: "length (connections s) \<le> length (connections (step a s))"
proof (cases a)
  case (Connect o') then show ?thesis by (simp add: connect_snd Let_def)
next
  case (Construct o' frame) then show ?thesis by (simp add: newExtConnection_def)
next
  case (Request c req) then show ?thesis
    by (auto simp: request_def Let_def split: option.splits if_splits)
next
  case (Deliver e) then show ?thesis using handleMessage_connections [of e s] by auto
qed

lemma run_connections_length: "length (connections s) \<le> length (connections (run as s))"
proof (induction as arbitrary: s)
  case Nil then show ?case by simp
next
  case (Cons a as)
  show ?case using Cons.IH [of "step a s"] step_connections_length [of s a] by simp
qed

section \<open>The claims\<close>

subsection \<open>C1: a response settles its request exactly once\<close>

text \<open>
  C1. Let a request with id \<open>reqId\<close> be pending on origin \<open>orig\<close>: its settlers are stored
  under the key of \<open>(orig, reqId)\<close> and its promise \<open>p\<close> is pending. When the handler
  processes a \<^verbatim>\<open>RESPONSE\<close> message from \<open>orig\<close> carrying that id, it removes the entry
  and makes exactly one call of a resolving function of \<open>p\<close>: \<^verbatim>\<open>reject\<close> with the value of
  \<^verbatim>\<open>err\<close> when the message has an \<^verbatim>\<open>err\<close> field, \<^verbatim>\<open>resolve\<close> with the value of
  \<^verbatim>\<open>body\<close> otherwise; the promise is settled accordingly and nothing else changes.
  Delivering the same message again does nothing, and no later step changes the promise.
\<close>

theorem response_settles_exactly_once:
  assumes d: "data e = JObj props"
    and t: "map_of props ''type'' = Some (JStr MESSAGE_TYPE_RESPONSE)"
    and i: "map_of props ''id'' = Some (JNum (int reqId))"
    and o: "eventOrigin e = orig"
    and h: "responseHandlers s (handlerKeyOf orig (numberToString (int reqId))) =
              Some \<lparr> resolve = p, reject = p \<rparr>"
    and p: "p < length (promises s)" "promises s ! p = Pending"
  shows "handleMessage e s =
           (None,
            s\<lparr> responseHandlers :=
                 (responseHandlers s)(handlerKeyOf orig (numberToString (int reqId)) := None),
               promises := (promises s)
                 [p := (case map_of props ''err'' of
                          Some err \<Rightarrow> Rejected (Data err)
                        | None \<Rightarrow> Fulfilled (Data (case map_of props ''body'' of
                                                     Some b \<Rightarrow> b | None \<Rightarrow> JUndefined)))],
               settleLog := settleLog s @
                 [case map_of props ''err'' of
                    Some err \<Rightarrow> RejectCall p (Data err)
                  | None \<Rightarrow> ResolveCall p (Data (case map_of props ''body'' of
                                                  Some b \<Rightarrow> b | None \<Rightarrow> JUndefined))] \<rparr>) \<and>
         handleMessage e (snd (handleMessage e s)) = (None, snd (handleMessage e s)) \<and>
         (\<forall>as. promises (run as (snd (handleMessage e s))) ! p =
                promises (snd (handleMessage e s)) ! p)"
proof -
  let ?K = "handlerKeyOf orig (numberToString (int reqId))"
  let ?s' = "snd (handleMessage e s)"
  have r: "js_toString (JNum (int reqId)) = Inr (numberToString (int reqId))" by simp
  have h': "responseHandlers s (handlerKeyOf (eventOrigin e) (numberToString (int reqId))) =
              Some \<lparr> resolve = p, reject = p \<rparr>"
    using h o by simp
  have first: "handleMessage e s =
           (None,
            s\<lparr> responseHandlers := (responseHandlers s)(?K := None),
               promises := (promises s)
                 [p := (case map_of props ''err'' of
                          Some err \<Rightarrow> Rejected (Data err)
                        | None \<Rightarrow> Fulfilled (Data (case map_of props ''body'' of
                                                     Some b \<Rightarrow> b | None \<Rightarrow> JUndefined)))],
               settleLog := settleLog s @
                 [case map_of props ''err'' of
                    Some err \<Rightarrow> RejectCall p (Data err)
                  | None \<Rightarrow> ResolveCall p (Data (case map_of props ''body'' of
                                                  Some b \<Rightarrow> b | None \<Rightarrow> JUndefined))] \<rparr>)"
    unfolding handleMessage_response [OF d t] handleResponse_matched [OF d i r h']
    using p o by (simp add: call_resolve_def call_reject_def settle_def split: option.splits)
  have gone: "responseHandlers ?s' (handlerKeyOf (eventOrigin e) (numberToString (int reqId))) = None"
    unfolding first using o by simp
  have i': "js_member (data e) ''id'' = Inr (JNum (int reqId))" using d i by simp
  have second: "handleMessage e ?s' = (None, ?s')"
    unfolding handleMessage_response [OF d t]
    using handleResponse_unmatched [OF d i' r gone] handleMessage_response [OF d t] by simp
  have settled: "p < length (promises ?s')" "promises ?s' ! p \<noteq> Pending"
    unfolding first using p by (simp_all split: option.splits)
  have "\<forall>as. promises (run as ?s') ! p = promises ?s' ! p"
    using run_settled_stable [OF settled] by simp
  with first second show ?thesis by simp
qed

theorem response_settles_exactly_once_witness:
  "promises (snd (handleMessage
      \<lparr> data = JObj [(''type'', JStr ''response''), (''id'', JNum 0), (''body'', JStr ''pong'')],
        eventOrigin = ''https://ext.example'', source = 7 \<rparr>
      (run [Construct ''https://ext.example'' 7, Request 0 (JStr ''ping'')] init)))
   = [Fulfilled (Data (JStr ''pong''))]"
proof -
  let ?e = "\<lparr> data = JObj [(''type'', JStr ''response''), (''id'', JNum 0), (''body'', JStr ''pong'')],
        eventOrigin = ''https://ext.example'', source = 7 \<rparr>"
  let ?s = "run [Construct ''https://ext.example'' 7, Request 0 (JStr ''ping'')] init"
  have s: "?s = init\<lparr> promises := [Pending],
       connections := [\<lparr> origin = ''https://ext.example'', messageFrame = 7, nextId = 1 \<rparr>],
       responseHandlers := [''https://ext.example/0'' \<mapsto> \<lparr> resolve = 0, reject = 0 \<rparr>],
       postedMessages := [\<lparr> target = 7,
           message = JObj [(''type'', JStr ''request''), (''id'', JNum 0), (''body'', JStr ''ping'')],
           targetOrigin = ''https://ext.example'' \<rparr>] \<rparr>"
    by (simp add: init_def newExtConnection_def request_def Let_def increment_def precisionLimit_def
        handlerKeyOf_def numberToString_def digit_def MESSAGE_TYPE_REQUEST_def)
  have h1: "data ?e = JObj [(''type'', JStr ''response''), (''id'', JNum 0), (''body'', JStr ''pong'')]"
    by simp
  have h2: "map_of [(''type'', JStr ''response''), (''id'', JNum 0), (''body'', JStr ''pong'')] ''type''
            = Some (JStr MESSAGE_TYPE_RESPONSE)"
    by (simp add: MESSAGE_TYPE_RESPONSE_def)
  have h3: "map_of [(''type'', JStr ''response''), (''id'', JNum 0), (''body'', JStr ''pong'')] ''id''
            = Some (JNum (int 0))"
    by simp
  have h4: "eventOrigin ?e = ''https://ext.example''" by simp
  have h5: "responseHandlers ?s (handlerKeyOf ''https://ext.example'' (numberToString (int 0)))
            = Some \<lparr> resolve = 0, reject = 0 \<rparr>"
    unfolding s by (simp add: handlerKeyOf_def numberToString_def digit_def)
  have h6: "0 < length (promises ?s)" unfolding s by simp
  have h7: "promises ?s ! 0 = Pending" unfolding s by simp
  show ?thesis
    using response_settles_exactly_once [OF h1 h2 h3 h4 h5 h6 h7]
    unfolding s by simp
qed

subsection \<open>C2: responses are matched by key, not by arrival order\<close>

lemma numberToString_int_inject:
  "numberToString (int m) = numberToString (int n) \<longleftrightarrow> m = n"
  by (simp add: numberToString_def natToString_inject)

lemma requestKey_inject:
  "handlerKeyOf orig (numberToString (int m)) = handlerKeyOf orig (numberToString (int n)) \<longleftrightarrow> m = n"
  by (simp add: handlerKeyOf_inject numberToString_int_inject)

lemma deliver_body_response:
  assumes d: "data e = JObj props"
    and t: "map_of props ''type'' = Some (JStr MESSAGE_TYPE_RESPONSE)"
    and i: "map_of props ''id'' = Some (JNum (int reqId))"
    and ne: "map_of props ''err'' = None"
    and o: "eventOrigin e = orig"
    and h: "responseHandlers s (handlerKeyOf orig (numberToString (int reqId))) =
              Some \<lparr> resolve = p, reject = p \<rparr>"
  shows "step (Deliver e) s =
           call_resolve p (Data (case map_of props ''body'' of Some b \<Rightarrow> b | None \<Rightarrow> JUndefined))
             (s\<lparr> responseHandlers :=
                  (responseHandlers s)(handlerKeyOf orig (numberToString (int reqId)) := None) \<rparr>)"
proof -
  have r: "js_toString (JNum (int reqId)) = Inr (numberToString (int reqId))" by simp
  have h': "responseHandlers s (handlerKeyOf (eventOrigin e) (numberToString (int reqId))) =
              Some \<lparr> resolve = p, reject = p \<rparr>"
    using h o by simp
  show ?thesis
    using handleMessage_response [OF d t] handleResponse_matched [OF d i r h'] ne o
    by simp
qed

text \<open>
  C2. Let two requests with different ids be outstanding on the same origin, each with its
  own pending promise. Whichever of their \<^verbatim>\<open>RESPONSE\<close> messages is delivered first,
  each promise is resolved with the body of the response bearing its own id.
\<close>

theorem responses_matched_by_id:
  assumes d1: "data e1 = JObj props1"
    and t1: "map_of props1 ''type'' = Some (JStr MESSAGE_TYPE_RESPONSE)"
    and i1: "map_of props1 ''id'' = Some (JNum (int id1))"
    and b1: "map_of props1 ''body'' = Some body1"
    and ne1: "map_of props1 ''err'' = None"
    and o1: "eventOrigin e1 = orig"
    and d2: "data e2 = JObj props2"
    and t2: "map_of props2 ''type'' = Some (JStr MESSAGE_TYPE_RESPONSE)"
    and i2: "map_of props2 ''id'' = Some (JNum (int id2))"
    and b2: "map_of props2 ''body'' = Some body2"
    and ne2: "map_of props2 ''err'' = None"
    and o2: "eventOrigin e2 = orig"
    and ids: "id1 \<noteq> id2"
    and h1: "responseHandlers s (handlerKeyOf orig (numberToString (int id1))) =
               Some \<lparr> resolve = p1, reject = p1 \<rparr>"
    and h2: "responseHandlers s (handlerKeyOf orig (numberToString (int id2))) =
               Some \<lparr> resolve = p2, reject = p2 \<rparr>"
    and ps: "p1 \<noteq> p2" "p1 < length (promises s)" "p2 < length (promises s)"
            "promises s ! p1 = Pending" "promises s ! p2 = Pending"
  shows "promises (run [Deliver e1, Deliver e2] s) ! p1 = Fulfilled (Data body1) \<and>
         promises (run [Deliver e1, Deliver e2] s) ! p2 = Fulfilled (Data body2) \<and>
         promises (run [Deliver e2, Deliver e1] s) ! p1 = Fulfilled (Data body1) \<and>
         promises (run [Deliver e2, Deliver e1] s) ! p2 = Fulfilled (Data body2)"
proof -
  let ?K1 = "handlerKeyOf orig (numberToString (int id1))"
  let ?K2 = "handlerKeyOf orig (numberToString (int id2))"
  have K: "?K1 \<noteq> ?K2" using ids by (simp add: requestKey_inject)
  have s1: "step (Deliver e1) s =
      call_resolve p1 (Data body1) (s\<lparr> responseHandlers := (responseHandlers s)(?K1 := None) \<rparr>)"
    using deliver_body_response [OF d1 t1 i1 ne1 o1 h1] b1 by simp
  have s2: "step (Deliver e2) s =
      call_resolve p2 (Data body2) (s\<lparr> responseHandlers := (responseHandlers s)(?K2 := None) \<rparr>)"
    using deliver_body_response [OF d2 t2 i2 ne2 o2 h2] b2 by simp
  have h2': "responseHandlers (step (Deliver e1) s) ?K2 = Some \<lparr> resolve = p2, reject = p2 \<rparr>"
    unfolding s1 using h2 K by simp
  have h1': "responseHandlers (step (Deliver e2) s) ?K1 = Some \<lparr> resolve = p1, reject = p1 \<rparr>"
    unfolding s2 using h1 K by simp
  have s12: "step (Deliver e2) (step (Deliver e1) s) =
      call_resolve p2 (Data body2) ((step (Deliver e1) s)\<lparr> responseHandlers :=
         (responseHandlers (step (Deliver e1) s))(?K2 := None) \<rparr>)"
    using deliver_body_response [OF d2 t2 i2 ne2 o2 h2'] b2 by simp
  have s21: "step (Deliver e1) (step (Deliver e2) s) =
      call_resolve p1 (Data body1) ((step (Deliver e2) s)\<lparr> responseHandlers :=
         (responseHandlers (step (Deliver e2) s))(?K1 := None) \<rparr>)"
    using deliver_body_response [OF d1 t1 i1 ne1 o1 h1'] b1 by simp
  have A: "promises (run [Deliver e1, Deliver e2] s) =
             (promises s)[p1 := Fulfilled (Data body1), p2 := Fulfilled (Data body2)]"
    unfolding run.simps s12 using ps by (simp add: s1 settle_def del: step.simps)
  have B: "promises (run [Deliver e2, Deliver e1] s) =
             (promises s)[p2 := Fulfilled (Data body2), p1 := Fulfilled (Data body1)]"
    unfolding run.simps s21 using ps by (simp add: s2 settle_def del: step.simps)
  show ?thesis unfolding A B using ps by simp
qed

theorem responses_matched_by_id_witness:
  "promises (run
      [Deliver \<lparr> data = JObj [(''type'', JStr ''response''), (''id'', JNum 1), (''body'', JStr ''second'')],
                 eventOrigin = ''https://ext.example'', source = 7 \<rparr>,
       Deliver \<lparr> data = JObj [(''type'', JStr ''response''), (''id'', JNum 0), (''body'', JStr ''first'')],
                 eventOrigin = ''https://ext.example'', source = 7 \<rparr>]
      (run [Construct ''https://ext.example'' 7, Request 0 (JStr ''a''), Request 0 (JStr ''b'')] init))
   = [Fulfilled (Data (JStr ''first'')), Fulfilled (Data (JStr ''second''))]"
proof -
  let ?p0 = "[(''type'', JStr ''response''), (''id'', JNum 0), (''body'', JStr ''first'')]"
  let ?p1 = "[(''type'', JStr ''response''), (''id'', JNum 1), (''body'', JStr ''second'')]"
  let ?e0 = "\<lparr> data = JObj ?p0, eventOrigin = ''https://ext.example'', source = 7 \<rparr>"
  let ?e1 = "\<lparr> data = JObj ?p1, eventOrigin = ''https://ext.example'', source = 7 \<rparr>"
  let ?s = "run [Construct ''https://ext.example'' 7, Request 0 (JStr ''a''), Request 0 (JStr ''b'')] init"
  have P: "promises ?s = [Pending, Pending]"
    by (simp add: init_def newExtConnection_def request_def Let_def)
  have H: "responseHandlers ?s =
      [''https://ext.example/0'' \<mapsto> \<lparr> resolve = 0, reject = 0 \<rparr>,
       ''https://ext.example/1'' \<mapsto> \<lparr> resolve = 1, reject = 1 \<rparr>]"
    by (simp add: init_def newExtConnection_def request_def Let_def increment_def precisionLimit_def
        handlerKeyOf_def numberToString_def digit_def)
  have d0: "data ?e0 = JObj ?p0" and d1: "data ?e1 = JObj ?p1" by simp_all
  have t0: "map_of ?p0 ''type'' = Some (JStr MESSAGE_TYPE_RESPONSE)"
    and t1: "map_of ?p1 ''type'' = Some (JStr MESSAGE_TYPE_RESPONSE)"
    by (simp_all add: MESSAGE_TYPE_RESPONSE_def)
  have i0: "map_of ?p0 ''id'' = Some (JNum (int 0))"
    and i1: "map_of ?p1 ''id'' = Some (JNum (int 1))" by simp_all
  have b0: "map_of ?p0 ''body'' = Some (JStr ''first'')"
    and b1: "map_of ?p1 ''body'' = Some (JStr ''second'')" by simp_all
  have n0: "map_of ?p0 ''err'' = None" and n1: "map_of ?p1 ''err'' = None" by simp_all
  have o0: "eventOrigin ?e0 = ''https://ext.example''"
    and o1: "eventOrigin ?e1 = ''https://ext.example''" by simp_all
  have ids: "(0::nat) \<noteq> 1" by simp
  have h0: "responseHandlers ?s (handlerKeyOf ''https://ext.example'' (numberToString (int 0)))
              = Some \<lparr> resolve = 0, reject = 0 \<rparr>"
    unfolding H by (simp add: handlerKeyOf_def numberToString_def digit_def)
  have h1: "responseHandlers ?s (handlerKeyOf ''https://ext.example'' (numberToString (int 1)))
              = Some \<lparr> resolve = 1, reject = 1 \<rparr>"
    unfolding H by (simp add: handlerKeyOf_def numberToString_def digit_def)
  have q: "(0::nat) \<noteq> 1" "0 < length (promises ?s)" "1 < length (promises ?s)"
    "promises ?s ! 0 = Pending" "promises ?s ! 1 = Pending"
    unfolding P by simp_all
  have len: "length (promises (run [Deliver ?e1, Deliver ?e0] ?s)) = 2"
    using P handleMessage_promises [of ?e1 ?s]
      handleMessage_promises [of ?e0 "snd (handleMessage ?e1 ?s)"]
    by (auto simp del: run.simps step.simps simp add: run.simps(2) [of "Deliver ?e1"] run.simps(2) [of "Deliver ?e0"] step.simps(4) run.simps(1))
  from responses_matched_by_id [OF d0 t0 i0 b0 n0 o0 d1 t1 i1 b1 n1 o1 ids h0 h1 q]
  have "promises (run [Deliver ?e1, Deliver ?e0] ?s) ! 0 = Fulfilled (Data (JStr ''first''))"
    and "promises (run [Deliver ?e1, Deliver ?e0] ?s) ! 1 = Fulfilled (Data (JStr ''second''))"
    by blast+
  with len show ?thesis
    by (intro nth_equalityI) (auto simp: less_Suc_eq numeral_2_eq_2)
qed

subsection \<open>C9: a response with neither body nor err\<close>

text \<open>
  C9. A \<^verbatim>\<open>RESPONSE\<close> message that matches a pending request and has neither a
  \<^verbatim>\<open>body\<close> nor an \<^verbatim>\<open>err\<close> field resolves the request's promise with
  \<^verbatim>\<open>undefined\<close>: the handler calls \<^verbatim>\<open>resolve\<close>, not \<^verbatim>\<open>reject\<close>, and throws
  nothing.
\<close>

theorem response_without_body_resolves_undefined:
  assumes d: "data e = JObj props"
    and t: "map_of props ''type'' = Some (JStr MESSAGE_TYPE_RESPONSE)"
    and i: "map_of props ''id'' = Some (JNum (int reqId))"
    and nb: "map_of props ''body'' = None"
    and ne: "map_of props ''err'' = None"
    and o: "eventOrigin e = orig"
    and h: "responseHandlers s (handlerKeyOf orig (numberToString (int reqId))) =
              Some \<lparr> resolve = p, reject = p \<rparr>"
    and p: "p < length (promises s)" "promises s ! p = Pending"
  shows "fst (handleMessage e s) = None \<and>
         promises (snd (handleMessage e s)) = (promises s)[p := Fulfilled (Data JUndefined)] \<and>
         promises (snd (handleMessage e s)) ! p = Fulfilled (Data JUndefined) \<and>
         settleLog (snd (handleMessage e s)) = settleLog s @ [ResolveCall p (Data JUndefined)]"
proof -
  have r: "js_toString (JNum (int reqId)) = Inr (numberToString (int reqId))" by simp
  have h': "responseHandlers s (handlerKeyOf (eventOrigin e) (numberToString (int reqId))) =
              Some \<lparr> resolve = p, reject = p \<rparr>"
    using h o by simp
  show ?thesis
    unfolding handleMessage_response [OF d t] handleResponse_matched [OF d i r h']
    using p nb ne by (simp add: settle_def)
qed

theorem response_without_body_resolves_undefined_witness:
  "promises (snd (handleMessage
      \<lparr> data = JObj [(''type'', JStr ''response''), (''id'', JNum 0)],
        eventOrigin = ''https://ext.example'', source = 7 \<rparr>
      (run [Construct ''https://ext.example'' 7, Request 0 (JStr ''ping'')] init)))
   = [Fulfilled (Data JUndefined)]"
proof -
  let ?e = "\<lparr> data = JObj [(''type'', JStr ''response''), (''id'', JNum 0)],
        eventOrigin = ''https://ext.example'', source = 7 \<rparr>"
  let ?s = "run [Construct ''https://ext.example'' 7, Request 0 (JStr ''ping'')] init"
  have s: "?s = init\<lparr> promises := [Pending],
       connections := [\<lparr> origin = ''https://ext.example'', messageFrame = 7, nextId = 1 \<rparr>],
       responseHandlers := [''https://ext.example/0'' \<mapsto> \<lparr> resolve = 0, reject = 0 \<rparr>],
       postedMessages := [\<lparr> target = 7,
           message = JObj [(''type'', JStr ''request''), (''id'', JNum 0), (''body'', JStr ''ping'')],
           targetOrigin = ''https://ext.example'' \<rparr>] \<rparr>"
    by (simp add: init_def newExtConnection_def request_def Let_def increment_def precisionLimit_def
        handlerKeyOf_def numberToString_def digit_def MESSAGE_TYPE_REQUEST_def)
  have h1: "data ?e = JObj [(''type'', JStr ''response''), (''id'', JNum 0)]"
    by simp
  have h2: "map_of [(''type'', JStr ''response''), (''id'', JNum 0)] ''type''
            = Some (JStr MESSAGE_TYPE_RESPONSE)"
    by (simp add: MESSAGE_TYPE_RESPONSE_def)
  have h3: "map_of [(''type'', JStr ''response''), (''id'', JNum 0)] ''id''
            = Some (JNum (int 0))"
    by simp
  have h3b: "map_of [(''type'', JStr ''response''), (''id'', JNum 0)] ''body'' = None" by simp
  have h3e: "map_of [(''type'', JStr ''response''), (''id'', JNum 0)] ''err'' = None" by simp
  have h4: "eventOrigin ?e = ''https://ext.example''" by simp
  have h5: "responseHandlers ?s (handlerKeyOf ''https://ext.example'' (numberToString (int 0)))
            = Some \<lparr> resolve = 0, reject = 0 \<rparr>"
    unfolding s by (simp add: handlerKeyOf_def numberToString_def digit_def)
  have h6: "0 < length (promises ?s)" unfolding s by simp
  have h7: "promises ?s ! 0 = Pending" unfolding s by simp
  show ?thesis
    using response_without_body_resolves_undefined [OF h1 h2 h3 h3b h3e h4 h5 h6 h7]
    unfolding s by simp
qed

subsection \<open>C3: connecting twice\<close>

text \<open>
  C3. After a first call of \<^verbatim>\<open>connect\<close> for an origin, every later call for that
  origin, whatever the module did in between, returns the very object the first call
  returned and changes nothing: it appends no frame to the document and installs no slot.
\<close>

theorem connect_idempotent:
  assumes first: "connect orig s = (r1, s1)"
    and later: "connect orig (run as s1) = (r2, s2)"
  shows "r2 = r1 \<and> s2 = run as s1 \<and> frames s2 = frames (run as s1) \<and>
         connectionsRequested s2 = connectionsRequested (run as s1)"
proof -
  have s1: "s1 = snd (connect orig s)" and r1: "r1 = js_get (connectionsPromised s1) orig"
    using first connect_fst [of orig s] by simp_all
  have inst: "addedMessageListener s1" "js_in orig (connectionsPromised s1)"
    using connect_installed [of orig s] by (simp_all add: s1)
  have kept: "addedMessageListener (run as s1)"
    "connectionsPromised (run as s1) orig = connectionsPromised s1 orig"
    using run_connected [OF inst, of as] by simp_all
  then have "js_in orig (connectionsPromised (run as s1))"
    using inst(2) by (simp add: js_in_def)
  with kept(1) have "connect orig (run as s1) = (js_get (connectionsPromised (run as s1)) orig, run as s1)"
    by (rule connect_again)
  with later kept(2) r1 show ?thesis by (simp add: js_get_def)
qed

theorem connect_idempotent_witness:
  "connect ''https://ext.example''
     (run [Connect ''https://other.example'']
        (snd (connect ''https://ext.example'' init)))
   = (Own 0, run [Connect ''https://other.example'']
        (snd (connect ''https://ext.example'' init))) \<and>
   frames (run [Connect ''https://other.example''] (snd (connect ''https://ext.example'' init)))
   = [frameOf ''https://ext.example'', frameOf ''https://other.example'']"
proof -
  let ?s1 = "snd (connect ''https://ext.example'' init)"
  have h1: "connect ''https://ext.example'' init = (Own 0, ?s1)"
    by (simp add: connect_def init_def js_in_def js_get_def objectPrototypeKeys_def)
  obtain r2 s2 where
    h2: "connect ''https://ext.example'' (run [Connect ''https://other.example''] ?s1) = (r2, s2)"
    by (cases "connect ''https://ext.example'' (run [Connect ''https://other.example''] ?s1)")
  have f: "frames (run [Connect ''https://other.example''] ?s1)
           = [frameOf ''https://ext.example'', frameOf ''https://other.example'']"
    by (simp add: connect_def init_def js_in_def js_get_def objectPrototypeKeys_def)
  show ?thesis using connect_idempotent [OF h1 h2] h2 f by simp
qed

subsection \<open>C4: request ids\<close>

lemma request_allocates:
  assumes "request c req s = Some (p, s')"
  shows "responseHandlers s'
           (handlerKeyOf (origin (connections s ! c))
              (numberToString (int (nextId (connections s ! c)))))
         = Some \<lparr> resolve = p, reject = p \<rparr> \<and>
         js_member (message (last (postedMessages s'))) ''id''
         = Inr (JNum (int (nextId (connections s ! c)))) \<and>
         nextId (connections s' ! c) = increment (nextId (connections s ! c))"
  using assms by (auto simp: request_def Let_def split: if_splits)

lemma step_connection:
  assumes c: "c < length (connections s)"
  shows "c < length (connections (step a s)) \<and>
         nextId (connections (step a s) ! c) =
           (if isRequestOn c a then increment (nextId (connections s ! c))
            else nextId (connections s ! c))"
proof (cases a)
  case (Connect o') then show ?thesis using c by (simp add: connect_snd Let_def isRequestOn_def)
next
  case (Construct o' frame) then show ?thesis using c
    by (simp add: newExtConnection_def isRequestOn_def nth_append)
next
  case (Request c' req) then show ?thesis using c
    by (auto simp: request_def Let_def isRequestOn_def nth_list_update)
next
  case (Deliver e) then show ?thesis using c handleMessage_connections [of e s]
    by (auto simp: isRequestOn_def nth_append)
qed

lemma increment_le: "k \<le> precisionLimit \<Longrightarrow> increment k \<le> precisionLimit"
  by (simp add: increment_def)

lemma min_increment:
  "k \<le> precisionLimit \<Longrightarrow> min (increment k + i) (precisionLimit) = min (k + Suc i) (precisionLimit)"
  by (simp add: increment_def min_def)

lemma map_upt_shift: "map f [0..<Suc n] = f 0 # map (\<lambda>i. f (Suc i)) [0..<n]"
  by (simp add: upt_conv_Cons map_Suc_upt [symmetric] del: upt_Suc)

lemma allocatedIds_saturating:
  "c < length (connections s) \<Longrightarrow> nextId (connections s ! c) = k \<Longrightarrow> k \<le> precisionLimit \<Longrightarrow>
   allocatedIds c as s = map (\<lambda>i. min (k + i) (precisionLimit)) [0..<requestsOn c as]"
proof (induction as arbitrary: s k)
  case Nil
  then show ?case by (simp add: requestsOn_def)
next
  case (Cons a as)
  from step_connection [OF Cons.prems(1), of a]
  have c': "c < length (connections (step a s))"
    and n': "nextId (connections (step a s) ! c) =
               (if isRequestOn c a then increment k else k)"
    using Cons.prems(2) by simp_all
  show ?case
  proof (cases "isRequestOn c a")
    case True
    have ih: "allocatedIds c as (step a s) =
                map (\<lambda>i. min (increment k + i) (precisionLimit)) [0..<requestsOn c as]"
      using Cons.IH [OF c', of "increment k"] n' True increment_le [OF Cons.prems(3)] by simp
    have cnt: "requestsOn c (a # as) = Suc (requestsOn c as)"
      using True by (simp add: requestsOn_def)
    show ?thesis
      unfolding cnt map_upt_shift
      using True Cons.prems ih by (simp add: min_increment del: upt_Suc)
  next
    case False
    have ih: "allocatedIds c as (step a s) =
                map (\<lambda>i. min (k + i) (precisionLimit)) [0..<requestsOn c as]"
      using Cons.IH [OF c', of k] n' False Cons.prems(3) by simp
    have cnt: "requestsOn c (a # as) = requestsOn c as"
      using False by (simp add: requestsOn_def)
    show ?thesis unfolding cnt using False ih by simp
  qed
qed

lemma step_new_connection:
  assumes "length (connections s) \<le> c" "c < length (connections (step a s))"
  shows "nextId (connections (step a s) ! c) = 0"
proof (cases a)
  case (Connect o') then show ?thesis using assms
    by (auto simp: connect_snd Let_def split: if_splits)
next
  case (Construct o' frame) then show ?thesis using assms
    by (auto simp: newExtConnection_def nth_append)
next
  case (Request c' req) then show ?thesis using assms
    by (auto simp: request_def Let_def split: if_splits)
next
  case (Deliver e) then show ?thesis using assms handleMessage_connections [of e s]
    by (auto simp: nth_append)
qed

lemma allocatedIds_from_absent:
  "length (connections s) \<le> c \<Longrightarrow>
   allocatedIds c as s = map (\<lambda>i. min i precisionLimit) [0..<length (allocatedIds c as s)]"
proof (induction as arbitrary: s)
  case Nil
  then show ?case by simp
next
  case (Cons a as)
  have hd: "allocatedIds c (a # as) s = allocatedIds c as (step a s)"
    using Cons.prems by simp
  show ?case
  proof (cases "length (connections (step a s)) \<le> c")
    case True
    from Cons.IH [OF True] show ?thesis unfolding hd .
  next
    case False
    then have c: "c < length (connections (step a s))" by simp
    have z: "nextId (connections (step a s) ! c) = 0"
      using Cons.prems c by (rule step_new_connection)
    have "allocatedIds c as (step a s) =
            map (\<lambda>i. min (0 + i) precisionLimit) [0..<requestsOn c as]"
      using c z by (rule allocatedIds_saturating) simp
    then show ?thesis unfolding hd by simp
  qed
qed

text \<open>
  C4, as amended. Along any run of the module from its initial state, the ids allocated
  by the calls of \<^verbatim>\<open>request\<close> on one connection, however they are interleaved with
  deliveries and other calls, are \<open>0, 1, 2, \<dots>\<close> in order, hence strictly increasing
  and pairwise distinct, as long as there are at most \<open>2^53 + 1\<close> of them.
\<close>

theorem request_ids_increase:
  assumes bound: "length (allocatedIds c as init) \<le> precisionLimit + 1"
  shows "allocatedIds c as init = [0..<length (allocatedIds c as init)] \<and>
         sorted_wrt (<) (allocatedIds c as init) \<and>
         distinct (allocatedIds c as init)"
proof -
  let ?n = "length (allocatedIds c as init)"
  have "allocatedIds c as init = map (\<lambda>i. min i precisionLimit) [0..<?n]"
    by (rule allocatedIds_from_absent) (simp add: init_def)
  also have "\<dots> = map (\<lambda>i. i) [0..<?n]"
    using bound by (intro map_cong) auto
  finally have eq: "allocatedIds c as init = [0..<?n]" by simp
  have "sorted_wrt (<) [0..<?n]" "distinct [0..<?n]" by (simp_all add: sorted_wrt_upt del: upt_Suc)
  with eq show ?thesis by metis
qed

theorem request_ids_increase_witness:
  "allocatedIds 0
     [Connect ''https://ext.example'',
      Deliver \<lparr> data = JObj [(''type'', JStr ''ready'')],
                eventOrigin = ''https://ext.example'', source = 7 \<rparr>,
      Request 0 (JStr ''a''),
      Deliver \<lparr> data = JObj [(''type'', JStr ''response''), (''id'', JNum 0), (''body'', JNull)],
                eventOrigin = ''https://ext.example'', source = 7 \<rparr>,
      Request 0 (JStr ''b''),
      Request 0 (JStr ''c'')] init = [0, 1, 2]"
proof -
  let ?as = "[Connect ''https://ext.example'',
      Deliver \<lparr> data = JObj [(''type'', JStr ''ready'')],
                eventOrigin = ''https://ext.example'', source = 7 \<rparr>,
      Request 0 (JStr ''a''),
      Deliver \<lparr> data = JObj [(''type'', JStr ''response''), (''id'', JNum 0), (''body'', JNull)],
                eventOrigin = ''https://ext.example'', source = 7 \<rparr>,
      Request 0 (JStr ''b''),
      Request 0 (JStr ''c'')]"
  have len: "length (allocatedIds 0 ?as init) = 3"
    by (simp add: isRequestOn_def init_def connect_def handleMessage_def handleReady_def
        handleResponse_def newExtConnection_def request_def Let_def js_in_def js_get_def
        objectPrototypeKeys_def call_resolve_def settle_def MESSAGE_TYPE_READY_def
        MESSAGE_TYPE_RESPONSE_def)
  have b: "length (allocatedIds 0 ?as init) \<le> precisionLimit + 1"
    unfolding len by (simp add: precisionLimit_def)
  have u: "[0..<3] = [0, 1, 2::nat]" by (simp add: upt_rec)
  show ?thesis using request_ids_increase [OF b] unfolding len u by simp
qed

lemma requestsOn_replicate: "requestsOn c (replicate n (Request c req)) = n"
  by (simp add: requestsOn_def isRequestOn_def)

lemma repeated_id:
  assumes c: "c < length (connections s)" and z: "nextId (connections s ! c) = 0"
    and n: "precisionLimit + 1 < n"
  shows "\<not> distinct (allocatedIds c (replicate n (Request c req)) s)"
proof -
  let ?xs = "allocatedIds c (replicate n (Request c req)) s"
  have eq: "?xs = map (\<lambda>i. min (0 + i) (precisionLimit)) [0..<n]"
    using allocatedIds_saturating [OF c z, of "replicate n (Request c req)"]
    by (simp add: requestsOn_replicate)
  have len: "length ?xs = n" unfolding eq by simp
  have a: "?xs ! (precisionLimit) = precisionLimit" unfolding eq using n by simp
  have b: "?xs ! (precisionLimit + 1) = precisionLimit" unfolding eq using n by simp
  show ?thesis
  proof
    assume "distinct ?xs"
    then have "?xs ! (precisionLimit) \<noteq> ?xs ! (precisionLimit + 1)"
      using n len by (simp add: nth_eq_iff_index_eq)
    with a b show False by simp
  qed
qed

text \<open>
  C4 as stated fails: the counter stops at \<open>2^53\<close>, so of \<open>2^53 + 2\<close> successive
  requests on a new connection the last two are allocated the same id.
\<close>

theorem request_id_reused_counterexample:
  "\<not> distinct (allocatedIds 0
      (Construct ''https://ext.example'' 7 # replicate (2 ^ 53 + 2) (Request 0 JNull)) init)"
proof -
  let ?s = "step (Construct ''https://ext.example'' 7) init"
  have hd: "allocatedIds 0
      (Construct ''https://ext.example'' 7 # replicate (2 ^ 53 + 2) (Request 0 JNull)) init
      = allocatedIds 0 (replicate (2 ^ 53 + 2) (Request 0 JNull)) ?s"
    by (simp only: allocatedIds.simps) (simp add: isRequestOn_def)
  have c: "0 < length (connections ?s)" and z: "nextId (connections ?s ! 0) = 0"
    by (simp_all add: newExtConnection_def init_def)
  have n: "precisionLimit + 1 < 2 ^ 53 + 2" by (simp add: precisionLimit_def)
  show ?thesis unfolding hd by (rule repeated_id [OF c z n])
qed

subsection \<open>C5: a message without the discriminant\<close>

lemma missing_type_ignored:
  assumes "data e \<noteq> JNull" "data e \<noteq> JUndefined"
    and "\<And>props. data e = JObj props \<Longrightarrow> map_of props ''type'' = None"
  shows "handleMessage e s = (None, s)"
  using assms
  by (cases "data e") (auto simp: handleMessage_def)

text \<open>
  C5. A message whose data carries no \<^verbatim>\<open>type\<close> field is ignored when the data is not
  \<^verbatim>\<open>null\<close> or \<^verbatim>\<open>undefined\<close> (\<open>missing_type_ignored\<close>). On \<^verbatim>\<open>null\<close> the
  handler does not ignore the event: reading \<^verbatim>\<open>e.data.type\<close> throws a TypeError.
\<close>

theorem null_data_throws:
  "handleMessage \<lparr> data = JNull, eventOrigin = ''https://page.example'', source = 0 \<rparr> init
   = (Some TypeError, init)"
  by (simp add: handleMessage_def)

subsection \<open>C6: unmatched messages\<close>

lemma unmatched_response_ignored:
  assumes "js_member (data e) ''type'' = Inr (JStr MESSAGE_TYPE_RESPONSE)"
    and "js_member (data e) ''id'' = Inr mid"
    and "js_toString mid = Inr rendered"
    and "responseHandlers s (handlerKeyOf (eventOrigin e) rendered) = None"
  shows "handleMessage e s = (None, s)"
  using assms
  by (simp add: handleMessage_def handleResponse_def js_in_handlerKey
      MESSAGE_TYPE_READY_def MESSAGE_TYPE_RESPONSE_def)

lemma unmatched_ready_ignored:
  assumes "js_member (data e) ''type'' = Inr (JStr MESSAGE_TYPE_READY)"
    and "connectionsRequested s (eventOrigin e) = None"
    and "eventOrigin e \<notin> set objectPrototypeKeys"
  shows "handleMessage e s = (None, s)"
  using assms by (simp add: handleMessage_def handleReady_def js_in_def)

text \<open>
  C6. An unmatched \<^verbatim>\<open>RESPONSE\<close> is a no-op (\<open>unmatched_response_ignored\<close>), and so
  is a \<^verbatim>\<open>READY\<close> from an origin without a slot when the origin is not a name that
  the registry object inherits (\<open>unmatched_ready_ignored\<close>). For an inherited name, here
  \<^verbatim>\<open>constructor\<close>, the test \<^verbatim>\<open>e.origin in connectionsRequested\<close> succeeds with no
  slot stored: the handler constructs a connection and throws a TypeError when it calls
  \<^verbatim>\<open>resolve\<close>.
\<close>

theorem ready_from_inherited_name_throws:
  "handleMessage \<lparr> data = JObj [(''type'', JStr ''ready'')], eventOrigin = ''constructor'',
                   source = 0 \<rparr> init
   = (Some TypeError,
      init\<lparr> connections := [\<lparr> origin = ''constructor'', messageFrame = 0, nextId = 0 \<rparr>] \<rparr>)"
  by (simp add: handleMessage_def handleReady_def MESSAGE_TYPE_READY_def js_in_def js_get_def
      objectPrototypeKeys_def newExtConnection_def init_def)

subsection \<open>C7: one listener\<close>

text \<open>
  C7. After any run of the module from its initial state, the message listener has been
  registered exactly once if the run contains a call of \<^verbatim>\<open>connect\<close>, and not at all
  otherwise; the flag \<^verbatim>\<open>addedMessageListener\<close> says which.
\<close>

theorem listener_installed_once:
  "listeners (run as init) = (if list_ex isConnect as then 1 else 0) \<and>
   addedMessageListener (run as init) = list_ex isConnect as"
  using run_listeners [of init as] by (simp add: init_def)

theorem listener_installed_once_witness:
  "listeners (run [Connect ''https://ext.example'', Connect ''https://other.example'',
                   Connect ''https://ext.example''] init) = 1 \<and>
   listeners (run [] init) = 0"
  using listener_installed_once
    [of "[Connect ''https://ext.example'', Connect ''https://other.example'',
          Connect ''https://ext.example'']"]
    listener_installed_once [of "[]"]
  by (simp add: isConnect_def)

subsection \<open>C8: the connection promise is never rejected\<close>

text \<open>
  C8. Let \<^verbatim>\<open>connect(orig)\<close>, called after any run \<open>as\<close> of the module from its initial
  state, return the promise \<open>p\<close>. After any further run \<open>bs\<close> the promise is not
  rejected, and it is still pending if no \<^verbatim>\<open>READY\<close> message from \<open>orig\<close> was
  delivered in \<open>as\<close> or \<open>bs\<close>.
\<close>

theorem connect_promise_never_rejected:
  assumes c: "connect orig (run as init) = (Own p, s1)"
  shows "p < length (promises (run bs s1)) \<and>
         (\<forall>v. promises (run bs s1) ! p \<noteq> Rejected v) \<and>
         ((\<forall>a \<in> set (as @ bs). \<not> isReadyFrom orig a) \<longrightarrow> promises (run bs s1) ! p = Pending)"
proof -
  have s1: "s1 = run (as @ [Connect orig]) init"
    using c by (simp add: run_append)
  have ok1: "registry_ok s1" unfolding s1 by (rule registry_ok_run [OF registry_ok_init])
  have "js_get (connectionsPromised s1) orig = Own p"
    using c connect_fst [of orig "run as init"] by simp
  then have P1: "connectionsPromised s1 orig = Some p"
    by (auto simp: js_get_def split: option.splits if_splits)
  have ok: "registry_ok (run bs s1)" using ok1 by (rule registry_ok_run)
  have P: "connectionsPromised (run bs s1) orig = Some p" using P1 by (rule run_promised)
  have pend: "promises (run bs s1) ! p = Pending" if nr: "\<forall>a \<in> set (as @ bs). \<not> isReadyFrom orig a"
  proof -
    have "\<forall>a \<in> set (as @ [Connect orig] @ bs). \<not> isReadyFrom orig a"
      using nr by (auto simp: isReadyFrom_def)
    then have "\<forall>q. connectionsPromised (run (as @ [Connect orig] @ bs) init) orig = Some q \<longrightarrow>
                 promises (run (as @ [Connect orig] @ bs) init) ! q = Pending"
      by (intro run_pending registry_ok_init) (simp_all add: init_def)
    then show ?thesis using P by (simp add: run_append s1)
  qed
  show ?thesis
    using promised_bound [OF ok P] promised_not_rejected [OF ok P] pend by blast
qed

theorem connect_promise_never_rejected_witness:
  "connect ''https://ext.example'' (run [] init) = (Own 0, snd (connect ''https://ext.example'' init)) \<and>
   promises (run [Deliver \<lparr> data = JObj [(''type'', JStr ''ready'')],
                             eventOrigin = ''https://other.example'', source = 3 \<rparr>,
                  Deliver \<lparr> data = JStr ''hello'', eventOrigin = ''https://ext.example'',
                             source = 3 \<rparr>]
               (snd (connect ''https://ext.example'' init))) ! 0 = Pending"
proof -
  let ?bs = "[Deliver \<lparr> data = JObj [(''type'', JStr ''ready'')],
                         eventOrigin = ''https://other.example'', source = 3 \<rparr>,
              Deliver \<lparr> data = JStr ''hello'', eventOrigin = ''https://ext.example'',
                         source = 3 \<rparr>]"
  have h: "connect ''https://ext.example'' (run [] init)
           = (Own 0, snd (connect ''https://ext.example'' init))"
    by (simp add: connect_def init_def js_in_def js_get_def objectPrototypeKeys_def)
  have nr: "\<forall>a \<in> set ([] @ ?bs). \<not> isReadyFrom ''https://ext.example'' a"
    by (simp add: isReadyFrom_def)
  show ?thesis using h connect_promise_never_rejected [OF h, of ?bs] nr by blast
qed

subsection \<open>C10: a second READY from a connected origin\<close>

lemma step_requested:
  assumes "connectionsPromised s orig = Some p"
  shows "connectionsRequested (step a s) orig = connectionsRequested s orig"
proof (cases a)
  case (Connect o')
  then show ?thesis using assms by (auto simp: connect_snd Let_def js_in_def)
next
  case (Construct o' frame)
  then show ?thesis by (simp add: newExtConnection_def)
next
  case (Request c req)
  then show ?thesis by (auto simp: request_def Let_def split: option.splits if_splits)
next
  case (Deliver e)
  then show ?thesis using handleMessage_frame [of e s] by simp
qed

lemma run_requested:
  "connectionsPromised s orig = Some p \<Longrightarrow>
   connectionsRequested (run as s) orig = connectionsRequested s orig"
proof (induction as arbitrary: s)
  case Nil then show ?case by simp
next
  case (Cons a as)
  have "connectionsPromised (step a s) orig = Some p" using Cons.prems by (rule step_promised)
  from Cons.IH [OF this] step_requested [OF Cons.prems, of a] show ?case by simp
qed

lemma handleReady_slot:
  assumes "connectionsRequested s (eventOrigin e) = Some h"
  shows "handleReady e s =
     (None, call_resolve (resolve h) (ConnRef (length (connections s)))
        (s\<lparr> connections := connections s @
              [\<lparr> origin = eventOrigin e, messageFrame = source e, nextId = 0 \<rparr>] \<rparr>))"
  using assms by (simp add: handleReady_def js_in_def js_get_def newExtConnection_def)

lemma handleMessage_ready_type:
  "js_member (data e) ''type'' = Inr (JStr MESSAGE_TYPE_READY) \<Longrightarrow>
   handleMessage e s = handleReady e s"
  by (simp add: handleMessage_def)

text \<open>
  C10. Let \<open>orig\<close> have a slot whose promise \<open>p\<close> is pending. A first \<^verbatim>\<open>READY\<close> from
  \<open>orig\<close> constructs a connection bound to the message's source and fulfils \<open>p\<close> with
  it. The slot is still there after any further run \<open>as\<close>. A second \<^verbatim>\<open>READY\<close> from
  \<open>orig\<close> throws nothing, constructs a new connection object bound to the second
  message's source and calls the stored \<^verbatim>\<open>resolve\<close> with it; the call has no effect,
  and \<open>p\<close> keeps the connection of the first \<^verbatim>\<open>READY\<close>.
\<close>

theorem second_ready_keeps_first_connection:
  assumes slot: "connectionsPromised s orig = Some p"
      "connectionsRequested s orig = Some \<lparr> resolve = p, reject = p \<rparr>"
    and pend: "p < length (promises s)" "promises s ! p = Pending"
    and e1: "js_member (data e1) ''type'' = Inr (JStr MESSAGE_TYPE_READY)" "eventOrigin e1 = orig"
    and e2: "js_member (data e2) ''type'' = Inr (JStr MESSAGE_TYPE_READY)" "eventOrigin e2 = orig"
    and s1: "s1 = snd (handleMessage e1 s)"
    and s2: "s2 = run as s1"
    and s3: "s3 = snd (handleMessage e2 s2)"
  shows "connections s1 = connections s @
           [\<lparr> origin = orig, messageFrame = source e1, nextId = 0 \<rparr>] \<and>
         promises s1 ! p = Fulfilled (ConnRef (length (connections s))) \<and>
         connectionsRequested s2 orig = Some \<lparr> resolve = p, reject = p \<rparr> \<and>
         fst (handleMessage e2 s2) = None \<and>
         connections s3 = connections s2 @
           [\<lparr> origin = orig, messageFrame = source e2, nextId = 0 \<rparr>] \<and>
         length (connections s) < length (connections s2) \<and>
         settleLog s3 = settleLog s2 @ [ResolveCall p (ConnRef (length (connections s2)))] \<and>
         promises s3 = promises s2 \<and>
         promises s3 ! p = Fulfilled (ConnRef (length (connections s)))"
proof -
  have r1: "connectionsRequested s (eventOrigin e1) = Some \<lparr> resolve = p, reject = p \<rparr>"
    using slot e1 by simp
  have S1: "s1 = call_resolve p (ConnRef (length (connections s)))
        (s\<lparr> connections := connections s @
              [\<lparr> origin = orig, messageFrame = source e1, nextId = 0 \<rparr>] \<rparr>)"
    unfolding s1 handleMessage_ready_type [OF e1(1)] handleReady_slot [OF r1] using e1(2) by simp
  have c1: "connections s1 = connections s @
           [\<lparr> origin = orig, messageFrame = source e1, nextId = 0 \<rparr>]"
    unfolding S1 by simp
  have p1: "promises s1 ! p = Fulfilled (ConnRef (length (connections s)))"
    and l1: "p < length (promises s1)"
    unfolding S1 using pend by (simp_all add: settle_def)
  have P1: "connectionsPromised s1 orig = Some p"
    and R1: "connectionsRequested s1 orig = Some \<lparr> resolve = p, reject = p \<rparr>"
    unfolding S1 using slot by simp_all
  have R2: "connectionsRequested s2 orig = Some \<lparr> resolve = p, reject = p \<rparr>"
    unfolding s2 using run_requested [OF P1, of as] R1 by simp
  have st: "p < length (promises s2)" "promises s2 ! p = Fulfilled (ConnRef (length (connections s)))"
    unfolding s2 using run_settled_stable [OF l1, of as] p1 by simp_all
  have r2: "connectionsRequested s2 (eventOrigin e2) = Some \<lparr> resolve = p, reject = p \<rparr>"
    using R2 e2 by simp
  have H2: "handleMessage e2 s2 = (None, call_resolve p (ConnRef (length (connections s2)))
        (s2\<lparr> connections := connections s2 @
              [\<lparr> origin = orig, messageFrame = source e2, nextId = 0 \<rparr>] \<rparr>))"
    unfolding handleMessage_ready_type [OF e2(1)] handleReady_slot [OF r2] using e2(2) by simp
  have p3: "promises s3 = promises s2"
    unfolding s3 H2 using st by (simp add: settle_def)
  have grow: "length (connections s) < length (connections s2)"
    unfolding s2 using run_connections_length [of s1 as] c1 by simp
  show ?thesis
    using c1 p1 R2 p3 st grow unfolding s3 H2 by simp
qed

theorem second_ready_keeps_first_connection_witness:
  "promises (snd (handleMessage
       \<lparr> data = JObj [(''type'', JStr ''ready'')], eventOrigin = ''https://ext.example'', source = 9 \<rparr>
       (snd (handleMessage
          \<lparr> data = JObj [(''type'', JStr ''ready'')], eventOrigin = ''https://ext.example'', source = 7 \<rparr>
          (snd (connect ''https://ext.example'' init))))))
   = [Fulfilled (ConnRef 0)] \<and>
   connections (snd (handleMessage
       \<lparr> data = JObj [(''type'', JStr ''ready'')], eventOrigin = ''https://ext.example'', source = 9 \<rparr>
       (snd (handleMessage
          \<lparr> data = JObj [(''type'', JStr ''ready'')], eventOrigin = ''https://ext.example'', source = 7 \<rparr>
          (snd (connect ''https://ext.example'' init))))))
   = [\<lparr> origin = ''https://ext.example'', messageFrame = 7, nextId = 0 \<rparr>,
      \<lparr> origin = ''https://ext.example'', messageFrame = 9, nextId = 0 \<rparr>]"
proof -
  let ?s = "snd (connect ''https://ext.example'' init)"
  let ?e1 = "\<lparr> data = JObj [(''type'', JStr ''ready'')], eventOrigin = ''https://ext.example'', source = 7 \<rparr>"
  let ?e2 = "\<lparr> data = JObj [(''type'', JStr ''ready'')], eventOrigin = ''https://ext.example'', source = 9 \<rparr>"
  have s: "?s = init\<lparr> listeners := 1, addedMessageListener := True, promises := [Pending],
      connectionsRequested := [''https://ext.example'' \<mapsto> \<lparr> resolve = 0, reject = 0 \<rparr>],
      connectionsPromised := [''https://ext.example'' \<mapsto> 0],
      frames := [frameOf ''https://ext.example''] \<rparr>"
    by (simp add: connect_def init_def js_in_def objectPrototypeKeys_def)
  have a1: "connectionsPromised ?s ''https://ext.example'' = Some 0"
    and a2: "connectionsRequested ?s ''https://ext.example'' = Some \<lparr> resolve = 0, reject = 0 \<rparr>"
    and a3: "0 < length (promises ?s)" and a4: "promises ?s ! 0 = Pending"
    and c0: "connections ?s = []"
    unfolding s by (simp_all add: init_def)
  have t1: "js_member (data ?e1) ''type'' = Inr (JStr MESSAGE_TYPE_READY)"
    and t2: "js_member (data ?e2) ''type'' = Inr (JStr MESSAGE_TYPE_READY)"
    by (simp_all add: MESSAGE_TYPE_READY_def)
  have o1: "eventOrigin ?e1 = ''https://ext.example''"
    and o2: "eventOrigin ?e2 = ''https://ext.example''" by simp_all
  have r: "run [] (snd (handleMessage ?e1 ?s)) = snd (handleMessage ?e1 ?s)" by simp
  note inst = second_ready_keeps_first_connection
    [OF a1 a2 a3 a4 t1 o1 t2 o2 refl r [symmetric] refl]
  have len: "length (promises ?s) = 1" unfolding s by simp
  have l3: "length (promises (snd (handleMessage ?e2 (snd (handleMessage ?e1 ?s))))) = 1"
    using len handleMessage_promises [of ?e1 ?s]
      handleMessage_promises [of ?e2 "snd (handleMessage ?e1 ?s)"]
    by auto
  have P: "promises (snd (handleMessage ?e2 (snd (handleMessage ?e1 ?s)))) = [Fulfilled (ConnRef 0)]"
    using inst l3 c0 by (intro nth_equalityI) auto
  have C: "connections (snd (handleMessage ?e2 (snd (handleMessage ?e1 ?s))))
     = [\<lparr> origin = ''https://ext.example'', messageFrame = 7, nextId = 0 \<rparr>,
        \<lparr> origin = ''https://ext.example'', messageFrame = 9, nextId = 0 \<rparr>]"
    using inst c0 by simp
  show ?thesis using P C by blast
qed

end
